theory Spec2Isabelle
  imports Main
begin

section \<open>Python values shared by the two engines\<close>

text \<open>
  Every \<^verbatim>\<open>raise\<close> of the source, and every failure of the interpreter on a name, a key,
  an index or an attribute, is an element of \<open>py_error\<close>. Functions that can fail return
  the error next to the state reached when it was raised, so that the effects that
  happened before the exception stay visible.
\<close>

datatype py_error =
    NameError | KeyError | TypeError | AttributeError | IndexError
  | ValueError | NotImplementedError | ProgrammingError | OtherException

text \<open>\<^verbatim>\<open>str.lower()\<close> on byte strings: only the letters A to Z change.\<close>

definition lower_char :: "char \<Rightarrow> char" where
  "lower_char c =
     (let n = (of_char c :: nat) in if 65 \<le> n \<and> n \<le> 90 then char_of (n + 32) else c)"

definition lower :: "string \<Rightarrow> string" where
  "lower s = map lower_char s"

definition newline :: char where
  "newline = CHR 0x0A"

text \<open>The characters \<^verbatim>\<open>str.strip()\<close> removes: space, tab, newline, VT, FF, CR.\<close>

definition is_space :: "char \<Rightarrow> bool" where
  "is_space c = (c = CHR '' '' \<or> (9 \<le> (of_char c :: nat) \<and> (of_char c :: nat) \<le> 13))"

text \<open>\<^verbatim>\<open>if line.strip()\<close>: the stripped line is non-empty.\<close>

definition strip_nonempty :: "string \<Rightarrow> bool" where
  "strip_nonempty s = (\<exists>c \<in> set s. \<not> is_space c)"


section \<open>job.py: the job log\<close>

record LogEntry =
  le_date :: string
  le_status :: string
  le_host :: string
  le_info :: string

text \<open>
  \<^verbatim>\<open>logfmt_re = "^(?P<date>.*) -- (?P<status>.*) -- (?P<host>.*) -- (?P<info>.*)$"\<close>.
  The four groups are greedy, so the regular expression engine places the three
  separators as far right as it can: the last separator of the line ends the host,
  the one before it ends the status, and so on. \<open>split_first\<close> finds the leftmost
  separator; on the reversed line (the separator reads the same in both directions)
  that is the rightmost one.
\<close>

definition sep :: string where
  "sep = '' -- ''"

fun split_first :: "string \<Rightarrow> (string \<times> string) option" where
  "split_first [] = None"
| "split_first (c # cs) =
     (if take 4 (c # cs) = sep then Some ([], drop 4 (c # cs))
      else map_option (\<lambda>(a, b). (c # a, b)) (split_first cs))"

text \<open>
  \<open>.\<close> does not match a newline, and \<open>$\<close> matches at the end of the string or before a
  newline that ends it.
\<close>

definition chomp :: "string \<Rightarrow> string" where
  "chomp s = (if s \<noteq> [] \<and> last s = newline then butlast s else s)"

definition logfmt_match :: "string \<Rightarrow> LogEntry option" where
  "logfmt_match line =
     (let body = chomp line in
      if newline \<in> set body then None
      else case split_first (rev body) of
             None \<Rightarrow> None
           | Some (ri, r1) \<Rightarrow>
               (case split_first r1 of
                  None \<Rightarrow> None
                | Some (rh, r2) \<Rightarrow>
                    (case split_first r2 of
                       None \<Rightarrow> None
                     | Some (rs, rd) \<Rightarrow>
                         Some \<lparr>le_date = rev rd, le_status = rev rs,
                               le_host = rev rh, le_info = rev ri\<rparr>)))"

text \<open>\<^verbatim>\<open>file.readlines()\<close>: the content cut after every newline, the newline kept.\<close>

fun readlines :: "string \<Rightarrow> string list" where
  "readlines [] = []"
| "readlines (c # cs) =
     (if c = newline then [c] # readlines cs
      else case readlines cs of [] \<Rightarrow> [[c]] | l # ls \<Rightarrow> (c # l) # ls)"

text \<open>\<^verbatim>\<open>line.partition("#")[0]\<close>: the text before the first \<open>#\<close>.\<close>

definition strip_comment :: "string \<Rightarrow> string" where
  "strip_comment line = takeWhile (\<lambda>c. c \<noteq> CHR ''#'') line"

text \<open>
  \<^verbatim>\<open>JobLog.read\<close>, on the content of the log file: comments are cut, blank lines
  dropped, and the first remaining line that does not match raises \<open>ValueError\<close>
  before any entry is built.
\<close>

definition log_lines :: "string \<Rightarrow> string list" where
  "log_lines content = filter strip_nonempty (map strip_comment (readlines content))"

definition read :: "string \<Rightarrow> py_error + LogEntry list" where
  "read content =
     (let lines = log_lines content in
      if \<exists>line \<in> set lines. logfmt_match line = None then Inl ValueError
      else Inr (map (\<lambda>line. the (logfmt_match line)) lines))"

text \<open>The line grammar in the words of the specification: four fields, three separators.\<close>

definition line_grammar :: "string \<Rightarrow> bool" where
  "line_grammar body =
     (\<exists>d s h i. body = d @ sep @ s @ sep @ h @ sep @ i \<and> newline \<notin> set body)"


section \<open>job.py: jobs and the pool\<close>

record PulsarSearchJob =
  datafiles :: "string list"
  jobname :: string
  logentries :: "LogEntry list"

record JobPool =
  jobs :: "PulsarSearchJob list"

text \<open>\<^verbatim>\<open>self.log.logentries[-1].status\<close>: an empty list of entries raises.\<close>

definition get_status :: "PulsarSearchJob \<Rightarrow> py_error + string" where
  "get_status job =
     (case logentries job of [] \<Rightarrow> Inl IndexError | _ \<Rightarrow> Inr (le_status (last (logentries job))))"

definition count_status :: "PulsarSearchJob \<Rightarrow> string \<Rightarrow> nat" where
  "count_status job st =
     length (filter (\<lambda>entry. lower (le_status entry) = lower st) (logentries job))"

text \<open>
  The module \<^verbatim>\<open>config\<close> that job.py imports is not among the sources; the two settings
  it reads from it are parameters.
\<close>

record job_config =
  delete_rawdata :: bool
  max_attempts :: nat

text \<open>
  Three names used by job.py are bound nowhere in it: the bare \<^verbatim>\<open>max_attempts\<close> of
  \<^verbatim>\<open>rotate\<close>, the bare call \<^verbatim>\<open>is_in_demand(j)\<close> of \<^verbatim>\<open>delete_job\<close>, and the attribute
  \<^verbatim>\<open>job.LogEntry\<close> read on a job object. The embedding takes what each of them
  resolves to as a parameter. \<open>as_written\<close> is the module on its own, where each of
  them raises; the other values are the bindings their context points to (a number,
  the pool's own method applied to the job, the module's \<^verbatim>\<open>LogEntry\<close> class).
\<close>

record bindings =
  b_max_attempts :: "nat option"
  b_is_in_demand :: bool
  b_LogEntry :: bool

definition as_written :: bindings where
  "as_written = \<lparr>b_max_attempts = None, b_is_in_demand = False, b_LogEntry = False\<rparr>"

text \<open>
  What the job manager does to the outside: the data files of every \<^verbatim>\<open>qsub\<close> it ran,
  the files it removed, the entries it appended to log files, the logs it archived.
\<close>

record world =
  submitted :: "string list list"
  removed :: "string list"
  appended :: "(string \<times> string) list"
  archived :: "string list"

subsection \<open>Demand counting\<close>

definition still_needed_statuses :: "string list" where
  "still_needed_statuses =
     [''submitted to queue'', ''processing in progress'', ''processing successful'', ''new job'']"

text \<open>
  One step of the loop of \<^verbatim>\<open>update_demand_file_list\<close>. The second disjunct calls
  \<^verbatim>\<open>job.count_status()\<close> without its argument, which raises \<open>TypeError\<close>; Python
  evaluates it only when the first disjunct is false and the status is
  \<^verbatim>\<open>'processing failed'\<close>.
\<close>

fun count_files :: "string list \<Rightarrow> (string \<rightharpoonup> nat) \<Rightarrow> (string \<rightharpoonup> nat)" where
  "count_files [] m = m"
| "count_files (d # ds) m =
     count_files ds (m(d \<mapsto> (case m d of None \<Rightarrow> 1 | Some n \<Rightarrow> n + 1)))"

fun demand_scan :: "PulsarSearchJob list \<Rightarrow> (string \<rightharpoonup> nat) \<Rightarrow> py_error + (string \<rightharpoonup> nat)" where
  "demand_scan [] m = Inr m"
| "demand_scan (job # rest) m =
     (case get_status job of
        Inl e \<Rightarrow> Inl e
      | Inr s \<Rightarrow>
          if lower s \<in> set still_needed_statuses then demand_scan rest (count_files (datafiles job) m)
          else if lower s = ''processing failed'' then Inl TypeError
          else demand_scan rest m)"

definition update_demand_file_list :: "JobPool \<Rightarrow> py_error + (string \<rightharpoonup> nat)" where
  "update_demand_file_list pool = demand_scan (jobs pool) Map.empty"

text \<open>
  The loop of \<^verbatim>\<open>is_in_demand\<close>: \<^verbatim>\<open>self.demand_file_list[datafile]\<close> raises \<open>KeyError\<close>
  for a file that no counted job lists.
\<close>

fun any_in_demand :: "(string \<rightharpoonup> nat) \<Rightarrow> string list \<Rightarrow> py_error + bool" where
  "any_in_demand m [] = Inr False"
| "any_in_demand m (d # ds) =
     (case m d of
        None \<Rightarrow> Inl KeyError
      | Some n \<Rightarrow> if n > 0 then Inr True else any_in_demand m ds)"

definition is_in_demand :: "JobPool \<Rightarrow> PulsarSearchJob \<Rightarrow> py_error + bool" where
  "is_in_demand pool job =
     (case update_demand_file_list pool of
        Inl e \<Rightarrow> Inl e
      | Inr m \<Rightarrow> any_in_demand m (datafiles job))"

text \<open>
  The demand count in the words of the specification: the number of tracked jobs
  that still need their inputs (submitted, processing, successful or new, or failed
  with attempts left) and list the file.
\<close>

definition still_needed :: "job_config \<Rightarrow> PulsarSearchJob \<Rightarrow> bool" where
  "still_needed cfg job =
     (case get_status job of
        Inl _ \<Rightarrow> False
      | Inr s \<Rightarrow>
          lower s \<in> set still_needed_statuses \<or>
          (lower s = ''processing failed'' \<and>
           count_status job ''processing failed'' < max_attempts cfg))"

definition demand_count :: "job_config \<Rightarrow> JobPool \<Rightarrow> string \<Rightarrow> nat" where
  "demand_count cfg pool d =
     length (filter (\<lambda>job. still_needed cfg job \<and> d \<in> set (datafiles job)) (jobs pool))"

subsection \<open>The three actions of a rotation pass\<close>

text \<open>
  \<^verbatim>\<open>submit_job\<close> runs \<^verbatim>\<open>qsub\<close> first and then builds the log entry through
  \<^verbatim>\<open>job.LogEntry\<close>.
\<close>

definition submit_job :: "bindings \<Rightarrow> PulsarSearchJob \<Rightarrow> world \<Rightarrow> py_error option \<times> world" where
  "submit_job b job w =
     (let w1 = w\<lparr>submitted := submitted w @ [datafiles job]\<rparr> in
      if b_LogEntry b
      then (None, w1\<lparr>appended := appended w1 @ [(jobname job, ''Submitted to queue'')]\<rparr>)
      else (Some AttributeError, w1))"

definition upload_results :: "PulsarSearchJob \<Rightarrow> world \<Rightarrow> py_error option \<times> world" where
  "upload_results job w = (Some NotImplementedError, w)"

text \<open>
  \<^verbatim>\<open>delete_job\<close>. After the files are removed and the log is archived,
  \<^verbatim>\<open>self.jobs.delete(job)\<close> raises: a Python list has no method \<^verbatim>\<open>delete\<close>.
\<close>

definition delete_job ::
  "job_config \<Rightarrow> bindings \<Rightarrow> JobPool \<Rightarrow> PulsarSearchJob \<Rightarrow> world \<Rightarrow> py_error option \<times> world" where
  "delete_job cfg b pool job w =
     (if delete_rawdata cfg then
        (if \<not> b_is_in_demand b then (Some NameError, w)
         else case is_in_demand pool job of
                Inl e \<Rightarrow> (Some e, w)
              | Inr True \<Rightarrow> (None, w)
              | Inr False \<Rightarrow>
                  if \<not> b_LogEntry b then (Some AttributeError, w)
                  else (Some AttributeError,
                        w\<lparr>appended := appended w @ [(jobname job, ''Deleted'')],
                          removed := removed w @ datafiles job,
                          archived := archived w @ [jobname job @ ''.log'']\<rparr>))
      else (None, w))"

subsection \<open>The rotation pass\<close>

text \<open>
  \<^verbatim>\<open>rotate\<close> reaches its three actions through \<^verbatim>\<open>self\<close>, so the pass is defined over
  any three actions; \<open>job_actions\<close> are the ones of job.py. The pass records every
  call it makes, before the action runs, so that a call whose action raises is
  counted too.
\<close>

datatype call = Submit PulsarSearchJob | Delete PulsarSearchJob | Upload PulsarSearchJob

record 'w actions =
  act_submit :: "PulsarSearchJob \<Rightarrow> 'w \<Rightarrow> py_error option \<times> 'w"
  act_delete :: "PulsarSearchJob \<Rightarrow> 'w \<Rightarrow> py_error option \<times> 'w"
  act_upload :: "PulsarSearchJob \<Rightarrow> 'w \<Rightarrow> py_error option \<times> 'w"

record 'w pass =
  cansubmit :: bool
  calls :: "call list"
  outside :: 'w

definition do_submit :: "'w actions \<Rightarrow> PulsarSearchJob \<Rightarrow> 'w pass \<Rightarrow> py_error option \<times> 'w pass" where
  "do_submit acts job p =
     (case act_submit acts job (outside p) of
        (Some e, w) \<Rightarrow> (Some e, p\<lparr>calls := calls p @ [Submit job], outside := w\<rparr>)
      | (None, w) \<Rightarrow>
          (None, p\<lparr>calls := calls p @ [Submit job], outside := w, cansubmit := False\<rparr>))"

definition do_delete :: "'w actions \<Rightarrow> PulsarSearchJob \<Rightarrow> 'w pass \<Rightarrow> py_error option \<times> 'w pass" where
  "do_delete acts job p =
     (case act_delete acts job (outside p) of
        (err, w) \<Rightarrow> (err, p\<lparr>calls := calls p @ [Delete job], outside := w\<rparr>))"

definition do_upload :: "'w actions \<Rightarrow> PulsarSearchJob \<Rightarrow> 'w pass \<Rightarrow> py_error option \<times> 'w pass" where
  "do_upload acts job p =
     (case act_upload acts job (outside p) of
        (err, w) \<Rightarrow> (err, p\<lparr>calls := calls p @ [Upload job], outside := w\<rparr>))"

definition recognized_statuses :: "string list" where
  "recognized_statuses =
     [''submitted to queue'', ''processing in progress'', ''processing failed'',
      ''processing successful'', ''new job'', ''upload successful'']"

text \<open>The body of the loop of \<^verbatim>\<open>rotate\<close>, for one job.\<close>

definition rotate_job ::
  "'w actions \<Rightarrow> bindings \<Rightarrow> PulsarSearchJob \<Rightarrow> 'w pass \<Rightarrow> py_error option \<times> 'w pass" where
  "rotate_job acts b job p =
     (case get_status job of
        Inl e \<Rightarrow> (Some e, p)
      | Inr s \<Rightarrow>
          (let status = lower s in
           if status = ''submitted to queue'' \<or> status = ''processing in progress'' then (None, p)
           else if status = ''processing failed'' then
             (let numfails = count_status job ''processing failed'' in
              case b_max_attempts b of
                None \<Rightarrow> (Some NameError, p)
              | Some m \<Rightarrow>
                  if numfails < m then (if cansubmit p then do_submit acts job p else (None, p))
                  else do_delete acts job p)
           else if status = ''processing successful'' then do_upload acts job p
           else if status = ''new job'' then
             (if cansubmit p then do_submit acts job p else (None, p))
           else if status = ''upload successful'' then do_delete acts job p
           else (Some ValueError, p)))"

fun rotate_loop ::
  "'w actions \<Rightarrow> bindings \<Rightarrow> PulsarSearchJob list \<Rightarrow> 'w pass \<Rightarrow> py_error option \<times> 'w pass" where
  "rotate_loop acts b [] p = (None, p)"
| "rotate_loop acts b (job # rest) p =
     (case rotate_job acts b job p of
        (Some e, p') \<Rightarrow> (Some e, p')
      | (None, p') \<Rightarrow> rotate_loop acts b rest p')"

text \<open>
  \<^verbatim>\<open>rotate\<close>: \<open>numqueued\<close> is what \<^verbatim>\<open>get_queue_status\<close> read from the batch queue.
\<close>

definition rotate ::
  "'w actions \<Rightarrow> bindings \<Rightarrow> nat \<Rightarrow> JobPool \<Rightarrow> 'w \<Rightarrow> py_error option \<times> 'w pass" where
  "rotate acts b numqueued pool w =
     rotate_loop acts b (jobs pool) \<lparr>cansubmit = (numqueued = 0), calls = [], outside = w\<rparr>"

definition job_actions :: "job_config \<Rightarrow> bindings \<Rightarrow> JobPool \<Rightarrow> world actions" where
  "job_actions cfg b pool =
     \<lparr>act_submit = submit_job b, act_delete = delete_job cfg b pool, act_upload = upload_results\<rparr>"

definition is_submit :: "call \<Rightarrow> bool" where
  "is_submit c = (case c of Submit _ \<Rightarrow> True | _ \<Rightarrow> False)"

definition call_job :: "call \<Rightarrow> PulsarSearchJob" where
  "call_job c = (case c of Submit j \<Rightarrow> j | Delete j \<Rightarrow> j | Upload j \<Rightarrow> j)"

definition submits :: "'w pass \<Rightarrow> nat" where
  "submits p = length (filter is_submit (calls p))"

text \<open>
  The invariant of the loop: while \<open>cansubmit\<close> is still true nothing has been
  submitted, and afterwards at most one job has.
\<close>

definition at_most_one :: "'w pass \<Rightarrow> bool" where
  "at_most_one p = (if cansubmit p then submits p = 0 else submits p \<le> 1)"


section \<open>lib/jobtracker.py: the store's single entry point\<close>

text \<open>
  \<^verbatim>\<open>query\<close> talks to SQLite through a connection. The embedding keeps what the
  connection holds: the committed database, the database as the open transaction
  sees it, and the cursor's last row id and pending rows. A statement is its effect
  on the database together with what it leaves on the cursor.
\<close>

record 'row cursor_state =
  lastrowid :: "nat option"
  pending_rows :: "'row list"

type_synonym ('db, 'row) statement = "'db \<Rightarrow> 'db \<times> 'row cursor_state"

record ('db, 'row) connection =
  committed :: 'db
  in_transaction :: 'db
  cur :: "'row cursor_state"

definition connect :: "'db \<Rightarrow> ('db, 'row) connection" where
  "connect db =
     \<lparr>committed = db, in_transaction = db, cur = \<lparr>lastrowid = None, pending_rows = []\<rparr>\<rparr>"

definition execute :: "('db, 'row) statement \<Rightarrow> ('db, 'row) connection \<Rightarrow> ('db, 'row) connection" where
  "execute q c = (case q (in_transaction c) of (db', k) \<Rightarrow> c\<lparr>in_transaction := db', cur := k\<rparr>)"

definition commit :: "('db, 'row) connection \<Rightarrow> ('db, 'row) connection" where
  "commit c = c\<lparr>committed := in_transaction c\<rparr>"

definition rollback :: "('db, 'row) connection \<Rightarrow> ('db, 'row) connection" where
  "rollback c = c\<lparr>in_transaction := committed c\<rparr>"

text \<open>What one turn of the \<^verbatim>\<open>while not_connected\<close> loop meets.\<close>

datatype attempt_outcome =
    Succeeds
  | Locked nat
  | CannotConnect

text \<open>
  \<open>Locked k\<close>: the connection opens, the first \<open>k\<close> statements run, and the next call
  (statement \<open>k\<close>, or the commit when \<open>k\<close> is the number of statements) raises
  \<^verbatim>\<open>sqlite3.OperationalError\<close>. \<open>CannotConnect\<close>: \<^verbatim>\<open>sqlite3.connect\<close> itself raises it.
\<close>

datatype 'row query_result = LastRowId nat | OneRow "'row option" | AllRows "'row list"

text \<open>
  \<^verbatim>\<open>if db_cur.lastrowid: ... else: fetchone() / fetchall()\<close>. A row id of 0 is
  false in Python.
\<close>

definition results_of :: "bool \<Rightarrow> 'row cursor_state \<Rightarrow> 'row query_result" where
  "results_of fetchone k =
     (case lastrowid k of
        Some n \<Rightarrow>
          if n \<noteq> 0 then LastRowId n
          else if fetchone then OneRow (case pending_rows k of [] \<Rightarrow> None | r # _ \<Rightarrow> Some r)
          else AllRows (pending_rows k)
      | None \<Rightarrow>
          if fetchone then OneRow (case pending_rows k of [] \<Rightarrow> None | r # _ \<Rightarrow> Some r)
          else AllRows (pending_rows k))"

record 'db query_state =
  database :: 'db
  count :: nat
  warnings :: nat
  slept :: nat
  db_conn_bound :: bool

text \<open>
  The handler of \<^verbatim>\<open>OperationalError\<close>, after the inner \<^verbatim>\<open>try\<close>: the warning when
  \<open>count > 59\<close>, one second of sleep, \<open>count += 1\<close>.
\<close>

definition backoff :: "'db query_state \<Rightarrow> 'db query_state" where
  "backoff s =
     (let s1 = (if count s > 59 then s\<lparr>warnings := warnings s + 1, count := 0\<rparr> else s)
      in s1\<lparr>slept := slept s1 + 1, count := count s1 + 1\<rparr>)"

text \<open>
  The loop of \<^verbatim>\<open>query\<close>, driven by what each turn meets. When the list of outcomes
  ends before a turn succeeds the loop is still running: the result is \<open>None\<close>.
  When \<^verbatim>\<open>sqlite3.connect\<close> raises in a later turn, \<^verbatim>\<open>db_conn\<close> still names the
  connection closed in an earlier one, and \<^verbatim>\<open>rollback\<close> on a closed connection
  raises \<^verbatim>\<open>sqlite3.ProgrammingError\<close>, which only \<^verbatim>\<open>except NameError\<close> guards.
\<close>

fun query_loop ::
  "('db, 'row) statement list \<Rightarrow> bool \<Rightarrow> attempt_outcome list \<Rightarrow> 'db query_state \<Rightarrow>
   ((py_error + 'row query_result) \<times> 'db query_state) option" where
  "query_loop queries fetchone [] s = None"
| "query_loop queries fetchone (Succeeds # rest) s =
     (let c = commit (fold execute queries (connect (database s)))
      in Some (Inr (results_of fetchone (cur c)), s\<lparr>database := committed c, db_conn_bound := True\<rparr>))"
| "query_loop queries fetchone (Locked k # rest) s =
     (let c = rollback (fold execute (take k queries) (connect (database s)))
      in query_loop queries fetchone rest (backoff (s\<lparr>database := committed c, db_conn_bound := True\<rparr>)))"
| "query_loop queries fetchone (CannotConnect # rest) s =
     (if db_conn_bound s then Some (Inl ProgrammingError, s)
      else query_loop queries fetchone rest (backoff s))"

definition query ::
  "('db, 'row) statement list \<Rightarrow> bool \<Rightarrow> attempt_outcome list \<Rightarrow> 'db \<Rightarrow>
   ((py_error + 'row query_result) \<times> 'db query_state) option" where
  "query queries fetchone outcomes db =
     query_loop queries fetchone outcomes
       \<lparr>database = db, count = 0, warnings = 0, slept = 0, db_conn_bound = False\<rparr>"


section \<open>Downloader.py: the rows of the store\<close>

text \<open>
  The three tables the download orchestrator works on. Each call of
  \<^verbatim>\<open>jobtracker.query\<close> in Downloader.py is a single statement; here it is the
  statement's effect on the tables, which is what \<open>query\<close> commits once it gets
  through. Clock readings (\<^verbatim>\<open>created_at\<close>, \<^verbatim>\<open>updated_at\<close>) are left out.
\<close>

record request_row =
  r_id :: nat
  r_guid :: string
  r_status :: string
  r_details :: string
  r_size :: "nat option"

record download_row =
  d_id :: nat
  d_request_id :: nat
  d_remote_filename :: string
  d_filename :: string
  d_status :: string
  d_details :: string
  d_size :: nat

record attempt_row =
  a_id :: nat
  a_download_id :: nat
  a_status :: "string option"
  a_details :: "string option"

record store =
  requests :: "request_row list"
  downloads :: "download_row list"
  download_attempts :: "attempt_row list"

text \<open>
  SQLite's \<^verbatim>\<open>LIKE\<close> with a pattern that has no wildcard: equality up to the case of
  ASCII letters.
\<close>

definition sql_like :: "string \<Rightarrow> string \<Rightarrow> bool" where
  "sql_like s pattern = (lower s = lower pattern)"

text \<open>The row id SQLite gives to an inserted row: one more than the largest in use.\<close>

definition next_id :: "nat list \<Rightarrow> nat" where
  "next_id ids = Suc (fold max ids 0)"

definition attempts_of :: "store \<Rightarrow> nat \<Rightarrow> attempt_row list" where
  "attempts_of st download_id = filter (\<lambda>a. a_download_id a = download_id) (download_attempts st)"

definition set_request_status :: "nat \<Rightarrow> string \<Rightarrow> store \<Rightarrow> store" where
  "set_request_status rid new_status st =
     st\<lparr>requests := map (\<lambda>r. if r_id r = rid then r\<lparr>r_status := new_status\<rparr> else r) (requests st)\<rparr>"

text \<open>
  \<^verbatim>\<open>INSERT INTO download_attempts (download_id, created_at, updated_at)\<close>: status and
  details start as NULL. The result is the new row's id, as \<open>query\<close> returns it.
\<close>

definition insert_attempt :: "nat \<Rightarrow> store \<Rightarrow> nat \<times> store" where
  "insert_attempt download_id st =
     (let new_id = next_id (map a_id (download_attempts st))
      in (new_id,
          st\<lparr>download_attempts := download_attempts st @
                [\<lparr>a_id = new_id, a_download_id = download_id, a_status = None, a_details = None\<rparr>]\<rparr>))"

text \<open>\<^verbatim>\<open>UPDATE download_attempts SET status = ..., details = ... WHERE id = ...\<close>\<close>

definition update_attempt :: "nat \<Rightarrow> string \<Rightarrow> string \<Rightarrow> store \<Rightarrow> store" where
  "update_attempt attempt new_status new_details st =
     st\<lparr>download_attempts :=
          map (\<lambda>a. if a_id a = attempt
                   then a\<lparr>a_status := Some new_status, a_details := Some new_details\<rparr> else a)
              (download_attempts st)\<rparr>"

text \<open>\<^verbatim>\<open>UPDATE downloads SET status = ..., details = ... WHERE remote_filename = ...\<close>\<close>

definition update_downloads :: "string \<Rightarrow> string \<Rightarrow> string \<Rightarrow> store \<Rightarrow> store" where
  "update_downloads filename new_status new_details st =
     st\<lparr>downloads :=
          map (\<lambda>d. if d_remote_filename d = filename
                   then d\<lparr>d_status := new_status, d_details := new_details\<rparr> else d)
              (downloads st)\<rparr>"


section \<open>Downloader.py: the download worker\<close>

text \<open>
  A \<^verbatim>\<open>downloader\<close> thread object, with the liveness of its thread as the orchestrator
  reads it through \<^verbatim>\<open>is_alive()\<close>, and the FTP commands it has sent once logged in.
\<close>

record downloader =
  restore_dir :: "string option"
  file_name :: string
  status :: string
  details :: string
  attempt_id :: nat
  download_flag :: bool
  total_size_got :: nat
  file_size :: nat
  is_alive :: bool
  sent :: "string list"
  sleeps :: nat

definition new_downloader :: "string option \<Rightarrow> string \<Rightarrow> nat \<Rightarrow> downloader" where
  "new_downloader dir filename attempt =
     \<lparr>restore_dir = dir, file_name = filename, status = [], details = [], attempt_id = attempt,
      download_flag = False, total_size_got = 0, file_size = 0, is_alive = False,
      sent = [], sleeps = 0\<rparr>"

text \<open>What a call into the FTP library or the file system does: raise, or return.\<close>

datatype 'a outcome = Raises string | Returns 'a

text \<open>
  One turn of the \<^verbatim>\<open>while not_logged_in\<close> loop meets: whether \<^verbatim>\<open>connect\<close>,
  \<^verbatim>\<open>auth_tls\<close> and \<^verbatim>\<open>set_pasv\<close> get through, what \<^verbatim>\<open>login\<close> does, what \<^verbatim>\<open>cwd\<close> does.
  The FTP library hands back the server's reply when its code is 2xx and raises it as
  an exception otherwise, so a refusal by the server is \<open>Raises\<close>.
\<close>

record ftp_turn =
  connects :: bool
  login :: "string outcome"
  cwd :: "string outcome"

text \<open>
  The loop. Any exception inside the \<^verbatim>\<open>try\<close> sleeps one second and starts the next
  turn; what the turn had already written to the object stays. The list of turns
  running out means the loop is still going: \<open>None\<close>.
\<close>

fun login_loop :: "ftp_turn list \<Rightarrow> downloader \<Rightarrow> downloader option" where
  "login_loop [] w = None"
| "login_loop (t # ts) w =
     (if \<not> connects t then login_loop ts (w\<lparr>sleeps := sleeps w + 1\<rparr>)
      else case login t of
        Raises _ \<Rightarrow> login_loop ts (w\<lparr>sleeps := sleeps w + 1\<rparr>)
      | Returns login_response \<Rightarrow>
          (let w1 = (if login_response \<noteq> ''230 User logged in.''
                     then w\<lparr>status := ''failed'', details := ''Login failed '' @ file_name w\<rparr>
                     else w);
               w2 = w1\<lparr>download_flag := True\<rparr>
           in case cwd t of
                Raises _ \<Rightarrow> login_loop ts (w2\<lparr>sleeps := sleeps w2 + 1\<rparr>)
              | Returns cwd_response \<Rightarrow>
                  Some (if cwd_response \<noteq> ''250 CWD command successful.''
                        then w2\<lparr>status := ''failed'',
                                details := ''Directory change failed '' @ file_name w2\<rparr>
                        else w2)))"

text \<open>
  What the rest of \<^verbatim>\<open>run\<close> meets: opening the local file, the \<^verbatim>\<open>SIZE\<close> command,
  \<^verbatim>\<open>TYPE I\<close>, the lengths of the blocks that \<^verbatim>\<open>retrbinary\<close> hands to \<^verbatim>\<open>write\<close>, and
  whether \<^verbatim>\<open>retrbinary\<close> then returns or raises. The progress text that \<^verbatim>\<open>write\<close>
  builds from clock readings is not modelled.
\<close>

record transfer =
  opens :: "unit outcome"
  size_reply :: "nat outcome"
  type_reply :: "unit outcome"
  blocks :: "nat list"
  retr_reply :: "unit outcome"

definition finished :: "string \<Rightarrow> string \<Rightarrow> downloader \<Rightarrow> downloader" where
  "finished new_status message w = w\<lparr>status := new_status, details := message\<rparr>"

definition write_block :: "nat \<Rightarrow> downloader \<Rightarrow> downloader" where
  "write_block n w = w\<lparr>total_size_got := total_size_got w + n, status := ''downloading''\<rparr>"

definition after_login :: "transfer \<Rightarrow> downloader \<Rightarrow> downloader" where
  "after_login env w =
     (let w1 = (case opens env of
                  Returns _ \<Rightarrow> w\<lparr>status := ''New''\<rparr>
                | Raises msg \<Rightarrow> w\<lparr>status := ''failed'', details := msg\<rparr>)
      in if status w1 = ''failed'' then w1
         else
           (let w2 = w1\<lparr>sent := sent w1 @ [''SIZE'']\<rparr> in
            case size_reply env of
              Raises msg \<Rightarrow> finished ''failed'' (''Failed: in Downloader.run() '' @ msg) w2
            | Returns n \<Rightarrow>
                (let w3 = w2\<lparr>file_size := n\<rparr> in
                 if n = 0
                 then finished ''failed'' ''Failed: in Downloader.run() File size 0'' w3
                 else
                   (let w4 = w3\<lparr>sent := sent w3 @ [''TYPE I'']\<rparr> in
                    case type_reply env of
                      Raises msg \<Rightarrow> finished ''failed'' (''Failed: in Downloader.run() '' @ msg) w4
                    | Returns _ \<Rightarrow>
                        (let w5 = fold write_block (blocks env)
                                    (w4\<lparr>sent := sent w4 @ [''RETR '' @ file_name w4]\<rparr>) in
                         case retr_reply env of
                           Raises msg \<Rightarrow>
                             finished ''failed'' (''Failed: in Downloader.run() '' @ msg) w5
                         | Returns _ \<Rightarrow> finished ''downloaded'' ''Completed'' w5)))))"

text \<open>\<^verbatim>\<open>downloader.run\<close>: the login loop, then the transfer.\<close>

definition run :: "ftp_turn list \<Rightarrow> transfer \<Rightarrow> downloader \<Rightarrow> downloader option" where
  "run turns env w = map_option (after_login env) (login_loop turns w)"


section \<open>Downloader.py: the restore object and the orchestrator\<close>

text \<open>
  \<^verbatim>\<open>self.guid\<close> is \<^verbatim>\<open>False\<close> until the remote service has assigned one; \<^verbatim>\<open>self.values\<close>
  is the request's row as last read, and is \<^verbatim>\<open>None\<close> or the empty list when there
  is none. \<^verbatim>\<open>self.downloaders\<close> and \<^verbatim>\<open>self.files\<close> are dictionaries keyed by the remote
  file name, kept here in the order of insertion.
\<close>

record restore =
  guid :: "string option"
  vals :: "request_row option"
  downloaders :: "(string \<times> downloader) list"
  files :: "(string \<times> nat) list"
  size :: nat

record download_config =
  numretries :: nat
  temp :: string

definition get_by_guid :: "store \<Rightarrow> string \<Rightarrow> request_row option" where
  "get_by_guid st g = (case filter (\<lambda>r. r_guid r = g) (requests st) of [] \<Rightarrow> None | r # _ \<Rightarrow> Some r)"

text \<open>\<^verbatim>\<open>restore(num_beams=1, guid=g)\<close>: an empty string counts as no guid in \<^verbatim>\<open>if self.guid\<close>.\<close>

definition restore_init :: "store \<Rightarrow> string option \<Rightarrow> restore" where
  "restore_init st g =
     \<lparr>guid = g,
      vals = (case g of None \<Rightarrow> None | Some s \<Rightarrow> if s = [] then None else get_by_guid st s),
      downloaders = [], files = [], size = 0\<rparr>"

text \<open>\<^verbatim>\<open>DownloadModule.recover\<close>, from the empty working set of the constructor.\<close>

definition recover :: "store \<Rightarrow> restore list" where
  "recover st =
     map (\<lambda>request. restore_init st (Some (r_guid request)))
         (filter (\<lambda>r. \<not> sql_like (r_status r) ''finished'') (requests st))"

subsection \<open>Completion evaluation\<close>

text \<open>
  \<^verbatim>\<open>restore.is_finished\<close>. Subscripting \<^verbatim>\<open>self.values\<close> raises when no row was read.
  The \<^verbatim>\<open>for\<close> loop returns \<^verbatim>\<open>False\<close> at the first failed download whose number of
  attempts is above \<^verbatim>\<open>numretries\<close>.
\<close>

definition is_finished :: "download_config \<Rightarrow> restore \<Rightarrow> store \<Rightarrow> py_error + (bool \<times> store)" where
  "is_finished cfg res st =
     (case vals res of
        None \<Rightarrow> Inl TypeError
      | Some row \<Rightarrow>
          (let rid = r_id row;
               all_downloads = filter (\<lambda>d. d_request_id d = rid) (downloads st);
               finished_downloads =
                 filter (\<lambda>d. d_request_id d = rid \<and> sql_like (d_status d) ''downloaded'') (downloads st);
               failed_downloads =
                 filter (\<lambda>d. d_request_id d = rid \<and> sql_like (d_status d) ''failed'') (downloads st);
               downloading =
                 filter (\<lambda>d. d_request_id d = rid \<and> sql_like (d_status d) ''downloading'') (downloads st)
           in if length downloading > 0 then Inr (False, st)
              else if length all_downloads = 0 \<and> downloaders res = [] then Inr (False, st)
              else if length all_downloads = length finished_downloads
              then Inr (True, set_request_status rid ''finished'' st)
              else if \<exists>failed_download \<in> set failed_downloads.
                        numretries cfg < length (attempts_of st (d_id failed_download))
              then Inr (False, st)
              else Inr (True, set_request_status rid ''finished'' st)))"

subsection \<open>Starting workers\<close>

text \<open>\<^verbatim>\<open>os.path.join\<close> of two components.\<close>

definition path_join :: "string \<Rightarrow> string \<Rightarrow> string" where
  "path_join a b =
     (if b \<noteq> [] \<and> hd b = CHR ''/'' then b
      else if a = [] \<or> last a = CHR ''/'' then a @ b
      else a @ ''/'' @ b)"

text \<open>
  \<^verbatim>\<open>create_dl_entries\<close>: the check compares the column \<^verbatim>\<open>filename\<close>, which holds the
  local path, with the remote name.
\<close>

fun create_dl_entries :: "download_config \<Rightarrow> nat \<Rightarrow> (string \<times> nat) list \<Rightarrow> store \<Rightarrow> store" where
  "create_dl_entries cfg rid [] st = st"
| "create_dl_entries cfg rid ((filename, filesize) # rest) st =
     (let dl_check = filter (\<lambda>d. d_request_id d = rid \<and> d_filename d = filename) (downloads st)
      in if length dl_check = 0
         then create_dl_entries cfg rid rest
                (st\<lparr>downloads := downloads st @
                     [\<lparr>d_id = next_id (map d_id (downloads st)), d_request_id = rid,
                       d_remote_filename = filename, d_filename = path_join (temp cfg) filename,
                       d_status = ''New'', d_details = [], d_size = filesize\<rparr>]\<rparr>)
         else create_dl_entries cfg rid rest st)"

text \<open>
  The first loop of \<^verbatim>\<open>restore.download\<close>, over the rows read before it starts. A
  worker and its attempt row are created when no worker is registered under the
  remote file name and \<^verbatim>\<open>numretries > this_download_attempts_count\<close>.
\<close>

fun start_workers ::
  "download_config \<Rightarrow> string option \<Rightarrow> download_row list \<Rightarrow>
   (string \<times> downloader) list \<times> store \<Rightarrow> (string \<times> downloader) list \<times> store" where
  "start_workers cfg dir [] (ws, st) = (ws, st)"
| "start_workers cfg dir (dl_entry # rest) (ws, st) =
     (let this_download_attempts_count = length (attempts_of st (d_id dl_entry)) in
      if map_of ws (d_remote_filename dl_entry) = None
         \<and> numretries cfg > this_download_attempts_count
      then (case insert_attempt (d_id dl_entry) st of
              (new_id, st') \<Rightarrow>
                start_workers cfg dir rest
                  (ws @ [(d_remote_filename dl_entry,
                          (new_downloader dir (d_remote_filename dl_entry) new_id)\<lparr>is_alive := True\<rparr>)],
                   st'))
      else start_workers cfg dir rest (ws, st))"

subsection \<open>Reconciling finished workers\<close>

text \<open>\<^verbatim>\<open>details.replace("'","").replace('"',"")\<close>\<close>

definition unquote :: "string \<Rightarrow> string" where
  "unquote s = filter (\<lambda>c. c \<noteq> CHR 0x27 \<and> c \<noteq> CHR 0x22) s"

text \<open>
  \<^verbatim>\<open>downloaded_size_match\<close>, over the files on disk (path to size). Taking element 0
  of an empty result raises.
\<close>

definition downloaded_size_match :: "(string \<rightharpoonup> nat) \<Rightarrow> store \<Rightarrow> nat \<Rightarrow> py_error + bool" where
  "downloaded_size_match disk st attempt =
     (case filter (\<lambda>a. a_id a = attempt) (download_attempts st) of
        [] \<Rightarrow> Inl IndexError
      | attempt_row # _ \<Rightarrow>
          (case filter (\<lambda>d. d_id d = a_download_id attempt_row) (downloads st) of
             [] \<Rightarrow> Inl IndexError
           | download # _ \<Rightarrow>
               (case disk (d_filename download) of
                  Some on_disk \<Rightarrow> Inr (on_disk = d_size download)
                | None \<Rightarrow> Inr False)))"

definition record_outcome :: "string \<Rightarrow> downloader \<Rightarrow> string \<Rightarrow> store \<Rightarrow> store" where
  "record_outcome filename w outcome st =
     update_downloads filename outcome (unquote (details w))
       (update_attempt (attempt_id w) outcome (unquote (details w)) st)"

text \<open>
  The body of the second loop of \<^verbatim>\<open>restore.download\<close>, for one key of
  \<^verbatim>\<open>self.downloaders\<close>.
\<close>

definition reconcile ::
  "(string \<rightharpoonup> nat) \<Rightarrow> string \<Rightarrow> (string \<times> downloader) list \<times> store \<Rightarrow>
   py_error option \<times> (string \<times> downloader) list \<times> store" where
  "reconcile disk filename s =
     (case s of (ws, st) \<Rightarrow>
        (case map_of ws filename of
           None \<Rightarrow> (Some KeyError, ws, st)
         | Some w \<Rightarrow>
             if \<not> is_alive w then
               (if status w = ''failed''
                then (None, filter (\<lambda>(k, _). k \<noteq> filename) ws, record_outcome filename w ''failed'' st)
                else if status w = ''downloaded'' then
                  (case downloaded_size_match disk st (attempt_id w) of
                     Inl e \<Rightarrow> (Some e, ws, st)
                   | Inr True \<Rightarrow>
                       (None, filter (\<lambda>(k, _). k \<noteq> filename) ws,
                        record_outcome filename w ''downloaded'' st)
                   | Inr False \<Rightarrow>
                       (None, filter (\<lambda>(k, _). k \<noteq> filename) ws,
                        record_outcome filename w ''failed'' st))
                else (None, filter (\<lambda>(k, _). k \<noteq> filename) ws, st))
             else (None, ws, record_outcome filename w ''downloading'' st)))"

fun reconcile_all ::
  "(string \<rightharpoonup> nat) \<Rightarrow> string list \<Rightarrow> (string \<times> downloader) list \<times> store \<Rightarrow>
   py_error option \<times> (string \<times> downloader) list \<times> store" where
  "reconcile_all disk [] s = (None, s)"
| "reconcile_all disk (filename # rest) s =
     (case reconcile disk filename s of
        (Some e, s') \<Rightarrow> (Some e, s')
      | (None, s') \<Rightarrow> reconcile_all disk rest s')"

text \<open>
  \<^verbatim>\<open>restore.download\<close>. \<open>seen\<close> is what the threads look like when the second loop
  inspects them: the workers run on their own, so their liveness, status and
  details at that moment are given from outside.
\<close>

definition download ::
  "download_config \<Rightarrow> (string \<rightharpoonup> nat) \<Rightarrow> (downloader \<Rightarrow> downloader) \<Rightarrow> restore \<Rightarrow> store \<Rightarrow>
   py_error option \<times> restore \<times> store" where
  "download cfg disk seen res st =
     (case vals res of
        None \<Rightarrow> (Some TypeError, res, st)
      | Some row \<Rightarrow>
          (let rid = r_id row;
               dl_entries = filter (\<lambda>d. d_request_id d = rid) (downloads st);
               st1 = (if downloaders res = [] \<and> dl_entries = []
                      then create_dl_entries cfg rid (files res) st else st);
               dl_entries = filter (\<lambda>d. d_request_id d = rid \<and> \<not> sql_like (d_status d) ''downloaded'')
                              (downloads st1)
           in case start_workers cfg (guid res) dl_entries (downloaders res, st1) of
                (ws, st2) \<Rightarrow>
                  (let ws' = map (\<lambda>(k, w). (k, seen w)) ws in
                   case reconcile_all disk (map fst ws) (ws', st2) of
                     (err, ws3, st3) \<Rightarrow> (err, res\<lparr>downloaders := ws3\<rparr>, st3))))"


section \<open>Notions of the specification\<close>

text \<open>The Download rows under the request a restore object stands for.\<close>

definition request_downloads :: "store \<Rightarrow> restore \<Rightarrow> download_row list" where
  "request_downloads st res =
     (case vals res of
        None \<Rightarrow> []
      | Some row \<Rightarrow> filter (\<lambda>d. d_request_id d = r_id row) (downloads st))"

text \<open>The values the code writes to the two status columns.\<close>

definition download_statuses :: "string list" where
  "download_statuses = [''New'', ''downloading'', ''downloaded'', ''failed'']"

definition request_statuses :: "string list" where
  "request_statuses = [''waiting'', ''ready'', ''finished'', ''failed'']"

text \<open>
  The completion rule in the words of the specification: every Download is
  downloaded, or none is downloading and every failed one has used up its retries.
\<close>

definition completion_rule :: "download_config \<Rightarrow> restore \<Rightarrow> store \<Rightarrow> bool" where
  "completion_rule cfg res st =
     ((\<forall>d \<in> set (request_downloads st res). d_status d = ''downloaded'') \<or>
      ((\<forall>d \<in> set (request_downloads st res). d_status d \<noteq> ''downloading'') \<and>
       (\<forall>d \<in> set (request_downloads st res).
          d_status d = ''failed'' \<longrightarrow> numretries cfg \<le> length (attempts_of st (d_id d)))))"

text \<open>Completion evaluation returns true and has written \<open>finished\<close> to the request.\<close>

definition marked_finished :: "download_config \<Rightarrow> restore \<Rightarrow> store \<Rightarrow> bool" where
  "marked_finished cfg res st =
     (case vals res of
        None \<Rightarrow> False
      | Some row \<Rightarrow>
          is_finished cfg res st = Inr (True, set_request_status (r_id row) ''finished'' st))"

text \<open>
  Every worker a restore object has registered is filed under the remote name of a
  Download row of its request. \<^verbatim>\<open>restore.download\<close> keeps this true: it registers
  workers for such rows only, and no row is ever deleted.
\<close>

definition workers_have_rows :: "restore \<Rightarrow> store \<Rightarrow> bool" where
  "workers_have_rows res st =
     (\<forall>k \<in> fst ` set (downloaders res). k \<in> d_remote_filename ` set (request_downloads st res))"

definition row_keys :: "download_row list \<Rightarrow> (nat \<times> string) list" where
  "row_keys ds = map (\<lambda>d. (d_request_id d, d_remote_filename d)) ds"

text \<open>What reconciliation writes for a worker that reported \<open>downloaded\<close>.\<close>

definition size_verdict :: "(string \<rightharpoonup> nat) \<Rightarrow> download_row \<Rightarrow> string" where
  "size_verdict disk d = (if disk (d_filename d) = Some (d_size d) then ''downloaded'' else ''failed'')"

text \<open>The state of \<open>query\<close> after \<open>n\<close> failed turns in a row, in closed form.\<close>

definition after_failures :: "nat \<Rightarrow> 'db \<Rightarrow> 'db query_state" where
  "after_failures n db =
     \<lparr>database = db, count = (if n = 0 then 0 else (n - 1) mod 60 + 1),
      warnings = (n - 1) div 60, slept = n, db_conn_bound = (n > 0)\<rparr>"


section \<open>Concrete situations\<close>

subsection \<open>A request and its downloads\<close>

definition ex_request :: request_row where
  "ex_request =
     \<lparr>r_id = 1, r_guid = ''9818e194'', r_status = ''ready'', r_details = [], r_size = None\<rparr>"

definition ex_restore :: restore where
  "ex_restore =
     \<lparr>guid = Some ''9818e194'', vals = Some ex_request, downloaders = [], files = [], size = 0\<rparr>"

definition ex_cfg :: download_config where
  "ex_cfg = \<lparr>numretries = 3, temp = ''/data''\<rparr>"

definition ex_download :: "nat \<Rightarrow> string \<Rightarrow> string \<Rightarrow> nat \<Rightarrow> download_row" where
  "ex_download i name st sz =
     \<lparr>d_id = i, d_request_id = 1, d_remote_filename = name, d_filename = ''/data/'' @ name,
      d_status = st, d_details = [], d_size = sz\<rparr>"

definition ex_attempt :: "nat \<Rightarrow> nat \<Rightarrow> string \<Rightarrow> attempt_row" where
  "ex_attempt i d st = \<lparr>a_id = i, a_download_id = d, a_status = Some st, a_details = Some []\<rparr>"

text \<open>No Download row yet.\<close>

definition ex_empty_store :: store where
  "ex_empty_store = \<lparr>requests = [ex_request], downloads = [], download_attempts = []\<rparr>"

text \<open>One file, failed once, two retries left.\<close>

definition ex_failed_once :: store where
  "ex_failed_once =
     \<lparr>requests = [ex_request],
      downloads = [ex_download 1 ''a.fits'' ''failed'' 100],
      download_attempts = [ex_attempt 1 1 ''failed'']\<rparr>"

text \<open>
  The scenario of the specification: three files of sizes 100, 200 and 300, two
  downloaded, the third failed three times with \<open>numretries = 3\<close>.
\<close>

definition ex_exhausted :: store where
  "ex_exhausted =
     \<lparr>requests = [ex_request],
      downloads = [ex_download 1 ''a.fits'' ''downloaded'' 100,
                   ex_download 2 ''b.fits'' ''downloaded'' 200,
                   ex_download 3 ''c.fits'' ''failed'' 300],
      download_attempts = [ex_attempt 1 1 ''downloaded'', ex_attempt 2 2 ''downloaded'',
                           ex_attempt 3 3 ''failed'', ex_attempt 4 3 ''failed'',
                           ex_attempt 5 3 ''failed'']\<rparr>"

text \<open>One file still being fetched.\<close>

definition ex_in_flight :: store where
  "ex_in_flight =
     \<lparr>requests = [ex_request],
      downloads = [ex_download 1 ''a.fits'' ''downloaded'' 100,
                   ex_download 2 ''b.fits'' ''downloading'' 200],
      download_attempts = [ex_attempt 1 1 ''downloaded'', ex_attempt 2 2 ''downloading'']\<rparr>"

text \<open>The only Download row belongs to another request.\<close>

definition ex_unmaterialized :: store where
  "ex_unmaterialized =
     \<lparr>requests = [ex_request],
      downloads = [(ex_download 7 ''z.fits'' ''failed'' 10)\<lparr>d_request_id := 2\<rparr>],
      download_attempts = [ex_attempt 1 7 ''failed'']\<rparr>"

text \<open>Two failed files, one of them at the ceiling of three attempts.\<close>

definition ex_retry :: store where
  "ex_retry =
     \<lparr>requests = [ex_request],
      downloads = [ex_download 1 ''a.fits'' ''failed'' 100, ex_download 2 ''b.fits'' ''failed'' 200],
      download_attempts = [ex_attempt 1 1 ''failed'', ex_attempt 2 1 ''failed'',
                           ex_attempt 3 2 ''failed'', ex_attempt 4 1 ''failed'']\<rparr>"

text \<open>A worker for \<open>b.fits\<close> that has ended and reports \<open>downloaded\<close>.\<close>

definition ex_done_worker :: downloader where
  "ex_done_worker =
     (new_downloader (Some ''9818e194'') ''b.fits'' 2)\<lparr>status := ''downloaded'', details := ''Completed''\<rparr>"

definition ex_disk_short :: "string \<rightharpoonup> nat" where
  "ex_disk_short = [''/data/b.fits'' \<mapsto> 150]"

definition ex_disk_full :: "string \<rightharpoonup> nat" where
  "ex_disk_full = [''/data/b.fits'' \<mapsto> 200]"

text \<open>A restore object that has listed its single file, and a worker seen dead and failed.\<close>

definition ex_new_restore :: restore where
  "ex_new_restore = ex_restore\<lparr>files := [(''a.fits'', 100)], size := 100\<rparr>"

definition ex_seen_failed :: "downloader \<Rightarrow> downloader" where
  "ex_seen_failed w =
     w\<lparr>is_alive := False, status := ''failed'', details := ''Failed: in Downloader.run() timed out''\<rparr>"

text \<open>Requests of a previous run, as recovery finds them.\<close>

definition ex_requests :: store where
  "ex_requests =
     \<lparr>requests = [\<lparr>r_id = 1, r_guid = ''g1'', r_status = ''waiting'', r_details = [], r_size = None\<rparr>,
                  \<lparr>r_id = 2, r_guid = ''g2'', r_status = ''finished'', r_details = [], r_size = Some 600\<rparr>,
                  \<lparr>r_id = 3, r_guid = ''g3'', r_status = ''ready'', r_details = [], r_size = Some 100\<rparr>,
                  \<lparr>r_id = 4, r_guid = ''g4'', r_status = ''failed'', r_details = [], r_size = None\<rparr>],
      downloads = [], download_attempts = []\<rparr>"

subsection \<open>A worker and its FTP server\<close>

definition ex_worker :: downloader where
  "ex_worker = new_downloader (Some ''9818e194'') ''a.fits'' 1"

text \<open>
  The server refuses the login (reply 530), or the change of directory (reply 550):
  the FTP library raises the reply as an exception. In the last turn it accepts both.
\<close>

definition ex_login_refused :: ftp_turn where
  "ex_login_refused =
     \<lparr>connects = True, login = Raises ''530 Login incorrect.'',
      cwd = Returns ''250 CWD command successful.''\<rparr>"

definition ex_cwd_refused :: ftp_turn where
  "ex_cwd_refused =
     \<lparr>connects = True, login = Returns ''230 User logged in.'',
      cwd = Raises ''550 9818e194: No such file or directory.''\<rparr>"

definition ex_accepted :: ftp_turn where
  "ex_accepted =
     \<lparr>connects = True, login = Returns ''230 User logged in.'',
      cwd = Returns ''250 CWD command successful.''\<rparr>"

definition ex_transfer :: transfer where
  "ex_transfer =
     \<lparr>opens = Returns (), size_reply = Returns 100, type_reply = Returns (),
      blocks = [60, 40], retr_reply = Returns ()\<rparr>"

subsection \<open>A store of numbers\<close>

text \<open>A table of numbers; inserting returns the new length as row id.\<close>

definition ex_insert :: "nat \<Rightarrow> (nat list, nat) statement" where
  "ex_insert v db = (db @ [v], \<lparr>lastrowid = Some (Suc (length db)), pending_rows = []\<rparr>)"

definition ex_select :: "(nat list, nat) statement" where
  "ex_select db = (db, \<lparr>lastrowid = None, pending_rows = db\<rparr>)"

subsection \<open>A pool of jobs\<close>

definition ex_entry :: "string \<Rightarrow> LogEntry" where
  "ex_entry st = \<lparr>le_date = ''2020-01-01 00:00:00'', le_status = st, le_host = ''hostA'', le_info = []\<rparr>"

definition ex_job :: "string \<Rightarrow> string list \<Rightarrow> PulsarSearchJob" where
  "ex_job file statuses = \<lparr>datafiles = [file @ ''.fits''], jobname = file, logentries = map ex_entry statuses\<rparr>"

definition ex_job_cfg :: job_config where
  "ex_job_cfg = \<lparr>delete_rawdata = True, max_attempts = 2\<rparr>"

text \<open>The three names bound to what their context points to.\<close>

definition ex_bound :: bindings where
  "ex_bound = \<lparr>b_max_attempts = Some 2, b_is_in_demand = True, b_LogEntry = True\<rparr>"

definition ex_world :: world where
  "ex_world = \<lparr>submitted = [], removed = [], appended = [], archived = []\<rparr>"

text \<open>Three jobs waiting to be submitted, one of them after a failure.\<close>

definition ex_waiting_pool :: JobPool where
  "ex_waiting_pool =
     \<lparr>jobs = [ex_job ''a'' [''New job''], ex_job ''b'' [''New job'', ''Processing failed''],
              ex_job ''c'' [''New job'']]\<rparr>"

text \<open>
  The scenario of the specification: one input file shared by a job in progress and a
  job whose results are uploaded.
\<close>

definition ex_shared_running :: PulsarSearchJob where
  "ex_shared_running =
     \<lparr>datafiles = [''x.fits''], jobname = ''run1'',
      logentries = map ex_entry [''New job'', ''Submitted to queue'', ''Processing in progress'']\<rparr>"

definition ex_shared_uploaded :: PulsarSearchJob where
  "ex_shared_uploaded =
     \<lparr>datafiles = [''x.fits''], jobname = ''run2'',
      logentries = map ex_entry [''New job'', ''Processing successful'', ''Upload successful'']\<rparr>"

definition ex_shared_pool :: JobPool where
  "ex_shared_pool = \<lparr>jobs = [ex_shared_running, ex_shared_uploaded]\<rparr>"

text \<open>A log with a line that is not an entry, and a job whose last status is unknown.\<close>

definition ex_bad_log :: string where
  "ex_bad_log =
     ''2020-01-01 00:00:00 -- New job -- hostA -- Datafiles: [a.fits]'' @ [newline] @
     ''2020-01-02 00:00:00 -- Processing failed -- hostA'' @ [newline]"

definition ex_odd_job :: PulsarSearchJob where
  "ex_odd_job = ex_job ''d'' [''New job'', ''Processing stalled'']"

definition ex_pass :: "world pass" where
  "ex_pass = \<lparr>cansubmit = True, calls = [], outside = ex_world\<rparr>"


section \<open>The job log is read strictly\<close>

lemma rev_sep: "rev sep = sep"
  by (simp add: sep_def)

lemma length_sep: "length sep = 4"
  by (simp add: sep_def)

lemma split_first_Some: "split_first s = Some (a, b) \<Longrightarrow> s = a @ sep @ b"
proof (induction s arbitrary: a b)
  case Nil
  then show ?case by simp
next
  case (Cons c cs)
  show ?case
  proof (cases "take 4 (c # cs) = sep")
    case True
    with Cons.prems have "a = []" "b = drop 4 (c # cs)" by auto
    moreover have "c # cs = take 4 (c # cs) @ drop 4 (c # cs)"
      by (simp only: append_take_drop_id)
    ultimately show ?thesis using True by (metis append_Nil)
  next
    case False
    with Cons.prems obtain a' where "split_first cs = Some (a', b)" "a = c # a'"
      by (auto split: option.splits)
    with Cons.IH show ?thesis by simp
  qed
qed

text \<open>
  Wherever a separator stands, \<open>split_first\<close> finds one at or before it, and what follows
  the one it finds still ends with what followed the given one.
\<close>

lemma split_first_finds: "\<exists>a0 y. split_first (a @ sep @ r) = Some (a0, y @ r)"
proof (induction a)
  case Nil
  have "take 4 (sep @ r) = sep" "drop 4 (sep @ r) = r" by (simp_all add: sep_def)
  then have "split_first (sep @ r) = Some ([], [] @ r)" by (simp add: sep_def)
  then show ?case by auto
next
  case (Cons c a)
  show ?case
  proof (cases "take 4 ((c # a) @ sep @ r) = sep")
    case True
    have "drop 4 ((c # a) @ sep @ r) = drop 4 ((c # a) @ sep) @ r" by (simp add: length_sep)
    with True show ?thesis by (metis append_Cons split_first.simps(2))
  next
    case False
    from Cons.IH obtain a0 y where "split_first (a @ sep @ r) = Some (a0, y @ r)" by blast
    with False show ?thesis by simp
  qed
qed

lemma three_split_complete:
  assumes "t = i @ sep @ h @ sep @ s @ sep @ d"
  shows "\<exists>ri r1 rh r2 rs rd. split_first t = Some (ri, r1) \<and> split_first r1 = Some (rh, r2)
           \<and> split_first r2 = Some (rs, rd)"
proof -
  obtain ri y1 where 1: "split_first t = Some (ri, y1 @ h @ sep @ s @ sep @ d)"
    using split_first_finds[of i "h @ sep @ s @ sep @ d"] assms by auto
  obtain rh y2 where 2: "split_first ((y1 @ h) @ sep @ s @ sep @ d) = Some (rh, y2 @ s @ sep @ d)"
    using split_first_finds[of "y1 @ h" "s @ sep @ d"] by auto
  obtain rs y3 where 3: "split_first ((y2 @ s) @ sep @ d) = Some (rs, y3 @ d)"
    using split_first_finds[of "y2 @ s" "d"] by auto
  show ?thesis using 1 2 3 by simp
qed

text \<open>The regular expression matches exactly the lines of the grammar.\<close>

lemma logfmt_match_None: "logfmt_match line = None \<longleftrightarrow> \<not> line_grammar (chomp line)"
proof (cases "newline \<in> set (chomp line)")
  case True
  then show ?thesis by (simp add: logfmt_match_def line_grammar_def Let_def)
next
  case False
  show ?thesis
  proof
    assume n: "logfmt_match line = None"
    show "\<not> line_grammar (chomp line)"
    proof
      assume "line_grammar (chomp line)"
      then obtain d s h i where "chomp line = d @ sep @ s @ sep @ h @ sep @ i"
        by (auto simp: line_grammar_def)
      then have "rev (chomp line) = rev i @ sep @ rev h @ sep @ rev s @ sep @ rev d"
        by (simp add: rev_sep)
      from three_split_complete[OF this] n False show False
        by (auto simp: logfmt_match_def Let_def)
    qed
  next
    assume g: "\<not> line_grammar (chomp line)"
    show "logfmt_match line = None"
    proof (rule ccontr)
      assume "logfmt_match line \<noteq> None"
      then obtain ri r1 rh r2 rs rd where
        "split_first (rev (chomp line)) = Some (ri, r1)" "split_first r1 = Some (rh, r2)"
        "split_first r2 = Some (rs, rd)"
        using False by (auto simp: logfmt_match_def Let_def split: option.splits)
      then have "rev (chomp line) = ri @ sep @ rh @ sep @ rs @ sep @ rd"
        by (auto dest!: split_first_Some)
      then have "rev (rev (chomp line)) = rev (ri @ sep @ rh @ sep @ rs @ sep @ rd)" by simp
      then have "chomp line = rev rd @ sep @ rev rs @ sep @ rev rh @ sep @ rev ri"
        by (simp add: rev_sep)
      with g False show False by (auto simp: line_grammar_def)
    qed
  qed
qed

lemma read_fails_iff:
  "read content = Inl ValueError \<longleftrightarrow>
   (\<exists>line \<in> set (log_lines content). \<not> line_grammar (chomp line))"
  by (simp add: read_def Let_def logfmt_match_None)

lemma read_ok:
  "(\<forall>line \<in> set (log_lines content). line_grammar (chomp line)) \<Longrightarrow>
   \<exists>es. read content = Inr es \<and> length es = length (log_lines content)"
  by (simp add: read_def Let_def logfmt_match_None)

text \<open>The groups are the greedy ones: the date takes every separator it can.\<close>

lemma logfmt_match_greedy:
  "logfmt_match ''a -- b -- c -- d -- e'' =
     Some \<lparr>le_date = ''a -- b'', le_status = ''c'', le_host = ''d'', le_info = ''e''\<rparr>"
  by code_simp


section \<open>One rotation pass\<close>

lemma do_submit_inv:
  assumes "cansubmit p" "submits p = 0" "do_submit acts job p = (err, p')"
  shows "submits p' = 1 \<and> (err = None \<longrightarrow> \<not> cansubmit p')"
  using assms
  by (auto simp: do_submit_def submits_def is_submit_def split: prod.splits option.splits)

lemma do_delete_inv:
  assumes "do_delete acts job p = (err, p')"
  shows "submits p' = submits p \<and> cansubmit p' = cansubmit p"
  using assms by (auto simp: do_delete_def submits_def is_submit_def split: prod.splits)

lemma do_upload_inv:
  assumes "do_upload acts job p = (err, p')"
  shows "submits p' = submits p \<and> cansubmit p' = cansubmit p"
  using assms by (auto simp: do_upload_def submits_def is_submit_def split: prod.splits)

lemma rotate_job_inv:
  assumes "at_most_one p" "rotate_job acts b job p = (err, p')"
  shows "submits p' \<le> 1 \<and> (err = None \<longrightarrow> at_most_one p')"
proof -
  consider (same) "p' = p"
    | (sub) "cansubmit p" "do_submit acts job p = (err, p')"
    | (del) "do_delete acts job p = (err, p')"
    | (upl) "do_upload acts job p = (err, p')"
    using assms(2) unfolding rotate_job_def Let_def
    by (auto split: sum.splits option.splits if_splits)
  then show ?thesis
  proof cases
    case same
    with assms(1) show ?thesis by (auto simp: at_most_one_def split: if_splits)
  next
    case sub
    with assms(1) have "submits p = 0" by (simp add: at_most_one_def)
    from do_submit_inv[OF sub(1) this sub(2)] show ?thesis by (auto simp: at_most_one_def)
  next
    case del
    from do_delete_inv[OF del] assms(1) show ?thesis
      by (auto simp: at_most_one_def split: if_splits)
  next
    case upl
    from do_upload_inv[OF upl] assms(1) show ?thesis
      by (auto simp: at_most_one_def split: if_splits)
  qed
qed

lemma rotate_loop_inv:
  "at_most_one p \<Longrightarrow> rotate_loop acts b js p = (err, p') \<Longrightarrow> submits p' \<le> 1"
proof (induction js arbitrary: p)
  case Nil
  then show ?case by (auto simp: at_most_one_def split: if_splits)
next
  case (Cons j js)
  obtain e1 p1 where s: "rotate_job acts b j p = (e1, p1)" by (cases "rotate_job acts b j p")
  from rotate_job_inv[OF Cons.prems(1) s]
  have 1: "submits p1 \<le> 1" "e1 = None \<longrightarrow> at_most_one p1" by auto
  show ?case
  proof (cases e1)
    case None
    with s Cons.prems(2) have "rotate_loop acts b js p1 = (err, p')" by simp
    with Cons.IH 1 None show ?thesis by blast
  next
    case (Some e)
    with s Cons.prems(2) have "p' = p1" by simp
    with 1 show ?thesis by simp
  qed
qed

lemma rotate_loop_append:
  "rotate_loop acts b pre p = (None, p') \<Longrightarrow>
   rotate_loop acts b (pre @ rest) p = rotate_loop acts b rest p'"
  by (induction pre arbitrary: p) (auto split: prod.splits option.splits)

lemma rotate_job_unrecognized:
  "get_status job = Inr s \<Longrightarrow> lower s \<notin> set recognized_statuses \<Longrightarrow>
   rotate_job acts b job p = (Some ValueError, p)"
  by (simp add: rotate_job_def recognized_statuses_def Let_def)

text \<open>With the actions of job.py, every call to \<^verbatim>\<open>submit_job\<close> is one run of \<^verbatim>\<open>qsub\<close>.\<close>

lemma rotate_job_qsub:
  assumes "rotate_job (job_actions cfg b0 pool) b job p = (err, p')"
  shows "length (submitted (outside p')) + submits p = length (submitted (outside p)) + submits p'"
proof -
  let ?acts = "job_actions cfg b0 pool"
  consider (same) "p' = p"
    | (sub) "do_submit ?acts job p = (err, p')"
    | (del) "do_delete ?acts job p = (err, p')"
    | (upl) "do_upload ?acts job p = (err, p')"
    using assms unfolding rotate_job_def Let_def
    by (auto split: sum.splits option.splits if_splits)
  then show ?thesis
  proof cases
    case same
    then show ?thesis by simp
  next
    case sub
    then show ?thesis
      by (auto simp: do_submit_def job_actions_def submit_job_def submits_def is_submit_def Let_def
               split: prod.splits option.splits if_splits)
  next
    case del
    then show ?thesis
      by (auto simp: do_delete_def job_actions_def delete_job_def submits_def is_submit_def
               split: prod.splits sum.splits bool.splits if_splits)
  next
    case upl
    then show ?thesis
      by (auto simp: do_upload_def job_actions_def upload_results_def submits_def is_submit_def
               split: prod.splits)
  qed
qed

lemma rotate_loop_qsub:
  "rotate_loop (job_actions cfg b0 pool) b js p = (err, p') \<Longrightarrow>
   length (submitted (outside p')) + submits p = length (submitted (outside p)) + submits p'"
proof (induction js arbitrary: p)
  case Nil
  then show ?case by simp
next
  case (Cons j js)
  obtain e1 p1 where s: "rotate_job (job_actions cfg b0 pool) b j p = (e1, p1)"
    by (cases "rotate_job (job_actions cfg b0 pool) b j p")
  note 1 = rotate_job_qsub[OF s]
  show ?case
  proof (cases e1)
    case None
    with s Cons.prems have "rotate_loop (job_actions cfg b0 pool) b js p1 = (err, p')" by simp
    from Cons.IH[OF this] 1 show ?thesis by simp
  next
    case (Some e)
    with s Cons.prems have "p' = p1" by simp
    with 1 show ?thesis by simp
  qed
qed

text \<open>
  With the three names bound, the pool of three waiting jobs gets one submission: the
  first job takes the slot, the other two are passed over.
\<close>

lemma rotate_waiting_pool:
  "map is_submit (calls (snd (rotate (job_actions ex_job_cfg ex_bound ex_waiting_pool) ex_bound 0
        ex_waiting_pool ex_world))) = [True]
   \<and> submitted (outside (snd (rotate (job_actions ex_job_cfg ex_bound ex_waiting_pool) ex_bound 0
        ex_waiting_pool ex_world))) = [[''a.fits'']]"
  by code_simp

text \<open>As the module stands, the first submission raises after \<^verbatim>\<open>qsub\<close> has run.\<close>

lemma rotate_waiting_pool_as_written:
  "fst (rotate (job_actions ex_job_cfg as_written ex_waiting_pool) as_written 0
        ex_waiting_pool ex_world) = Some AttributeError
   \<and> submitted (outside (snd (rotate (job_actions ex_job_cfg as_written ex_waiting_pool) as_written 0
        ex_waiting_pool ex_world))) = [[''a.fits'']]"
  by code_simp


section \<open>Demand for input files\<close>

lemma count_files_pos:
  "(\<And>x n. m x = Some n \<Longrightarrow> 0 < n) \<Longrightarrow> count_files ds m x = Some n \<Longrightarrow> 0 < n"
proof (induction ds arbitrary: m)
  case Nil
  then show ?case by simp
next
  case (Cons d ds)
  show ?case
  proof (rule Cons.IH[of "m(d \<mapsto> (case m d of None \<Rightarrow> 1 | Some n \<Rightarrow> n + 1))"])
    fix x n assume "(m(d \<mapsto> (case m d of None \<Rightarrow> 1 | Some n \<Rightarrow> n + 1))) x = Some n"
    then show "0 < n" using Cons.prems(1) by (auto split: if_splits option.splits)
  next
    show "count_files ds (m(d \<mapsto> (case m d of None \<Rightarrow> 1 | Some n \<Rightarrow> n + 1))) x = Some n"
      using Cons.prems(2) by simp
  qed
qed

lemma dom_count_files: "dom (count_files ds m) = dom m \<union> set ds"
  by (induction ds arbitrary: m) auto

lemma demand_scan_pos:
  "(\<And>x n. m0 x = Some n \<Longrightarrow> 0 < n) \<Longrightarrow> demand_scan js m0 = Inr m \<Longrightarrow> m x = Some n \<Longrightarrow> 0 < n"
proof (induction js arbitrary: m0)
  case Nil
  then show ?case by simp
next
  case (Cons j js)
  from Cons.prems(2) obtain s where s: "get_status j = Inr s" by (auto split: sum.splits)
  show ?case
  proof (cases "lower s \<in> set still_needed_statuses")
    case True
    with s Cons.prems(2) have "demand_scan js (count_files (datafiles j) m0) = Inr m" by simp
    then show ?thesis
      using Cons.IH[of "count_files (datafiles j) m0"] count_files_pos[of m0] Cons.prems(1,3)
      by blast
  next
    case False
    with s Cons.prems(2) have "demand_scan js m0 = Inr m" by (auto split: if_splits)
    then show ?thesis using Cons.IH[of m0] Cons.prems(1,3) by blast
  qed
qed

text \<open>
  When the scan of \<^verbatim>\<open>update_demand_file_list\<close> gets through, the files it has counted
  are the files with a positive demand count.
\<close>

lemma demand_scan_dom:
  "demand_scan js m0 = Inr m \<Longrightarrow>
   dom m = dom m0 \<union> {d. \<exists>j \<in> set js. still_needed cfg j \<and> d \<in> set (datafiles j)}"
proof (induction js arbitrary: m0)
  case Nil
  then show ?case by simp
next
  case (Cons j js)
  from Cons.prems obtain s where s: "get_status j = Inr s" by (auto split: sum.splits)
  show ?case
  proof (cases "lower s \<in> set still_needed_statuses")
    case True
    with s Cons.prems have "demand_scan js (count_files (datafiles j) m0) = Inr m" by simp
    from Cons.IH[OF this] have
      "dom m = dom m0 \<union> set (datafiles j) \<union> {d. \<exists>j \<in> set js. still_needed cfg j \<and> d \<in> set (datafiles j)}"
      by (simp add: dom_count_files)
    moreover have "still_needed cfg j" using s True by (simp add: still_needed_def)
    ultimately show ?thesis by auto
  next
    case False
    with s Cons.prems have nf: "lower s \<noteq> ''processing failed''" and r: "demand_scan js m0 = Inr m"
      by (auto split: if_splits)
    have "\<not> still_needed cfg j" using s False nf by (simp add: still_needed_def)
    with Cons.IH[OF r] show ?thesis by auto
  qed
qed

lemma demand_count_pos:
  "0 < demand_count cfg pool d \<longleftrightarrow> (\<exists>j \<in> set (jobs pool). still_needed cfg j \<and> d \<in> set (datafiles j))"
  by (auto simp: demand_count_def filter_empty_conv)

lemma update_demand_file_list_counts:
  "update_demand_file_list pool = Inr m \<Longrightarrow> (m d \<noteq> None \<longleftrightarrow> 0 < demand_count cfg pool d)"
  using demand_scan_dom[of "jobs pool" Map.empty m cfg]
  by (auto simp: update_demand_file_list_def demand_count_pos dom_def)

lemma any_in_demand_False:
  "any_in_demand m ds = Inr False \<Longrightarrow> x \<in> set ds \<Longrightarrow> m x = Some 0"
  by (induction ds) (auto split: option.splits if_splits)

text \<open>
  \<^verbatim>\<open>is_in_demand\<close> answers \<^verbatim>\<open>False\<close> only for a job without data files: a file that no
  job needs has no key in the dictionary, and looking it up raises.
\<close>

lemma is_in_demand_False:
  assumes "is_in_demand pool job = Inr False"
  shows "datafiles job = []"
proof (rule ccontr)
  assume "datafiles job \<noteq> []"
  then obtain x where x: "x \<in> set (datafiles job)" by (cases "datafiles job") auto
  from assms obtain m where
    m: "update_demand_file_list pool = Inr m" "any_in_demand m (datafiles job) = Inr False"
    by (auto simp: is_in_demand_def split: sum.splits)
  from any_in_demand_False[OF m(2) x] have "m x = Some 0" .
  moreover have "0 < (0::nat)"
    using demand_scan_pos[of Map.empty "jobs pool" m x 0] m(1) calculation
    by (simp add: update_demand_file_list_def)
  ultimately show False by simp
qed

lemma delete_job_removed:
  "removed (snd (delete_job cfg b pool job w)) = removed w \<or>
   (is_in_demand pool job = Inr False
    \<and> removed (snd (delete_job cfg b pool job w)) = removed w @ datafiles job)"
  by (auto simp: delete_job_def split: sum.splits bool.splits)


section \<open>Claims about the job lifecycle manager\<close>

text \<open>
  Claim C2. Within one invocation of the rotation pass at most one submit action is
  performed, whatever the number of eligible jobs: the calls to \<^verbatim>\<open>submit_job\<close> made by
  \<^verbatim>\<open>rotate\<close> number at most one, for any pool, any queue state, any binding of the
  module's open names and any behaviour of the three actions (a submission that
  raises is counted as well); and with the actions of job.py the pass runs \<^verbatim>\<open>qsub\<close> at
  most once.
\<close>

theorem rotate_submits_at_most_once:
  "length (filter is_submit (calls (snd (rotate acts b numqueued pool w)))) \<le> 1
   \<and> length (submitted (outside (snd (rotate (job_actions cfg b0 pool0) b numqueued pool w0))))
       \<le> length (submitted w0) + 1"
proof
  let ?p0 = "\<lparr>cansubmit = (numqueued = 0), calls = [], outside = w\<rparr>"
  have "at_most_one ?p0" by (simp add: at_most_one_def submits_def)
  moreover obtain err p' where "rotate_loop acts b (jobs pool) ?p0 = (err, p')"
    by (cases "rotate_loop acts b (jobs pool) ?p0")
  ultimately show "length (filter is_submit (calls (snd (rotate acts b numqueued pool w)))) \<le> 1"
    using rotate_loop_inv[of ?p0 acts b "jobs pool" err p'] by (simp add: rotate_def submits_def)
next
  let ?q0 = "\<lparr>cansubmit = (numqueued = 0), calls = [], outside = w0\<rparr>"
  let ?acts = "job_actions cfg b0 pool0"
  have a: "at_most_one ?q0" by (simp add: at_most_one_def submits_def)
  obtain err p' where r: "rotate_loop ?acts b (jobs pool) ?q0 = (err, p')"
    by (cases "rotate_loop ?acts b (jobs pool) ?q0")
  have "submits p' \<le> 1" using rotate_loop_inv[OF a r] .
  moreover have "length (submitted (outside p')) + submits ?q0
                 = length (submitted (outside ?q0)) + submits p'"
    using rotate_loop_qsub[OF r] .
  moreover have "submits ?q0 = 0" by (simp add: submits_def)
  ultimately have "length (submitted (outside p')) \<le> length (submitted w0) + 1" by simp
  then show "length (submitted (outside (snd (rotate ?acts b numqueued pool w0))))
       \<le> length (submitted w0) + 1"
    using r by (simp add: rotate_def)
qed

theorem rotate_submits_at_most_once_witness:
  "length (filter is_submit (calls (snd (rotate (job_actions ex_job_cfg ex_bound ex_waiting_pool)
      ex_bound 0 ex_waiting_pool ex_world)))) \<le> 1
   \<and> length (submitted (outside (snd (rotate (job_actions ex_job_cfg ex_bound ex_waiting_pool)
      ex_bound 0 ex_waiting_pool ex_world)))) \<le> length (submitted ex_world) + 1"
  by (rule rotate_submits_at_most_once)

text \<open>
  Claim C8. Corruption is not swallowed. Loading a job log raises exactly when some
  line that is left after comments and blank lines are removed does not have the form
  \<open>timestamp -- status -- host -- info\<close>, and then no entry is returned; and when the
  rotation pass comes to a job whose current status is none of the six lifecycle
  states it raises \<open>ValueError\<close> in the state the earlier jobs left, with no call
  made for that job.
\<close>

theorem corruption_is_fatal:
  "(read content = Inl ValueError \<longleftrightarrow>
      (\<exists>line \<in> set (log_lines content). \<not> line_grammar (chomp line)))
   \<and> (rotate_loop acts b pre p = (None, p') \<and> get_status job = Inr s
        \<and> lower s \<notin> set recognized_statuses
      \<longrightarrow> rotate_loop acts b (pre @ job # rest) p = (Some ValueError, p'))"
proof (intro conjI impI)
  show "read content = Inl ValueError \<longleftrightarrow>
      (\<exists>line \<in> set (log_lines content). \<not> line_grammar (chomp line))"
    by (rule read_fails_iff)
next
  assume a: "rotate_loop acts b pre p = (None, p') \<and> get_status job = Inr s
        \<and> lower s \<notin> set recognized_statuses"
  then have "rotate_job acts b job p' = (Some ValueError, p')"
    using rotate_job_unrecognized by blast
  then have "rotate_loop acts b (job # rest) p' = (Some ValueError, p')" by simp
  with a show "rotate_loop acts b (pre @ job # rest) p = (Some ValueError, p')"
    using rotate_loop_append[of acts b pre p p' "job # rest"] by simp
qed

theorem corruption_is_fatal_witness:
  "read ex_bad_log = Inl ValueError
   \<and> (\<exists>line \<in> set (log_lines ex_bad_log). \<not> line_grammar (chomp line))
   \<and> rotate_loop (job_actions ex_job_cfg ex_bound ex_waiting_pool) ex_bound
        [ex_job ''a'' [''New job'']] ex_pass
      = (None, ex_pass\<lparr>cansubmit := False, calls := [Submit (ex_job ''a'' [''New job''])],
                       outside := ex_world\<lparr>submitted := [[''a.fits'']],
                                            appended := [(''a'', ''Submitted to queue'')]\<rparr>\<rparr>)
   \<and> rotate_loop (job_actions ex_job_cfg ex_bound ex_waiting_pool) ex_bound
        ([ex_job ''a'' [''New job'']] @ ex_odd_job # [ex_job ''c'' [''New job'']]) ex_pass
      = (Some ValueError,
         ex_pass\<lparr>cansubmit := False, calls := [Submit (ex_job ''a'' [''New job''])],
                 outside := ex_world\<lparr>submitted := [[''a.fits'']],
                                      appended := [(''a'', ''Submitted to queue'')]\<rparr>\<rparr>)"
proof -
  let ?acts = "job_actions ex_job_cfg ex_bound ex_waiting_pool"
  let ?p' = "ex_pass\<lparr>cansubmit := False, calls := [Submit (ex_job ''a'' [''New job''])],
                     outside := ex_world\<lparr>submitted := [[''a.fits'']],
                                          appended := [(''a'', ''Submitted to queue'')]\<rparr>\<rparr>"
  have r: "read ex_bad_log = Inl ValueError" by code_simp
  have l: "\<exists>line \<in> set (log_lines ex_bad_log). \<not> line_grammar (chomp line)"
    using corruption_is_fatal[THEN conjunct1, of ex_bad_log] r by (rule iffD1)
  have h1: "rotate_loop ?acts ex_bound [ex_job ''a'' [''New job'']] ex_pass = (None, ?p')"
    by code_simp
  have h2: "get_status ex_odd_job = Inr ''Processing stalled''" by code_simp
  have h3: "lower ''Processing stalled'' \<notin> set recognized_statuses" by code_simp
  have c: "rotate_loop ?acts ex_bound
             ([ex_job ''a'' [''New job'']] @ ex_odd_job # [ex_job ''c'' [''New job'']]) ex_pass
           = (Some ValueError, ?p')"
    using corruption_is_fatal[THEN conjunct2, rule_format, of ?acts ex_bound
            "[ex_job ''a'' [''New job'']]" ex_pass ?p' ex_odd_job "''Processing stalled''"
            "[ex_job ''c'' [''New job'']]"] h1 h2 h3
    by blast
  show ?thesis using r l h1 c by (intro conjI)
qed

text \<open>
  Claim C4. Deleting a job removes one of its input files only when the demand count
  of that file, taken over all tracked jobs that are submitted, processing,
  successful or new, or failed with attempts left, is zero: a file with a positive
  demand count is not among the files \<^verbatim>\<open>delete_job\<close> removes. This holds for the module
  as it stands and for every binding of its open names.
\<close>

theorem delete_job_keeps_demanded:
  assumes "0 < demand_count cfg pool d"
  shows "\<exists>gone. removed (snd (delete_job cfg b pool job w)) = removed w @ gone \<and> d \<notin> set gone"
proof -
  from delete_job_removed[of cfg b pool job w]
  consider (kept) "removed (snd (delete_job cfg b pool job w)) = removed w"
    | (gone) "is_in_demand pool job = Inr False"
        "removed (snd (delete_job cfg b pool job w)) = removed w @ datafiles job"
    by blast
  then show ?thesis
  proof cases
    case kept
    then show ?thesis by simp
  next
    case gone
    from gone(1) obtain m where
      m: "update_demand_file_list pool = Inr m" "any_in_demand m (datafiles job) = Inr False"
      by (auto simp: is_in_demand_def split: sum.splits)
    have "d \<notin> set (datafiles job)"
    proof
      assume "d \<in> set (datafiles job)"
      from any_in_demand_False[OF m(2) this] have "m d = Some 0" .
      moreover have "m d \<noteq> Some 0"
        using demand_scan_pos[of Map.empty "jobs pool" m d 0] m(1)
        by (auto simp: update_demand_file_list_def)
      ultimately show False by simp
    qed
    with gone(2) show ?thesis by blast
  qed
qed

theorem delete_job_keeps_demanded_witness:
  "0 < demand_count ex_job_cfg ex_shared_pool ''x.fits''
   \<and> (\<exists>gone. removed (snd (delete_job ex_job_cfg ex_bound ex_shared_pool ex_shared_uploaded ex_world))
              = removed ex_world @ gone \<and> ''x.fits'' \<notin> set gone)"
proof -
  have h: "0 < demand_count ex_job_cfg ex_shared_pool ''x.fits''" by code_simp
  from h delete_job_keeps_demanded[OF h, of ex_bound ex_shared_uploaded ex_world]
  show ?thesis by (rule conjI)
qed

text \<open>On the shared file the full scan counts one job, and the deletion leaves it alone.\<close>

lemma delete_shared_uploaded:
  "is_in_demand ex_shared_pool ex_shared_uploaded = Inr True
   \<and> delete_job ex_job_cfg ex_bound ex_shared_pool ex_shared_uploaded ex_world = (None, ex_world)
   \<and> delete_job ex_job_cfg as_written ex_shared_pool ex_shared_uploaded ex_world
       = (Some NameError, ex_world)"
  by code_simp


section \<open>Completion evaluation\<close>

lemma like_download_status:
  "s \<in> set download_statuses \<Longrightarrow> sql_like s ''downloading'' \<longleftrightarrow> s = ''downloading''"
  "s \<in> set download_statuses \<Longrightarrow> sql_like s ''downloaded'' \<longleftrightarrow> s = ''downloaded''"
  "s \<in> set download_statuses \<Longrightarrow> sql_like s ''failed'' \<longleftrightarrow> s = ''failed''"
  by (auto simp: download_statuses_def sql_like_def lower_def lower_char_def)

lemma like_request_status:
  "s \<in> set request_statuses \<Longrightarrow> sql_like s ''finished'' \<longleftrightarrow> s = ''finished''"
  by (auto simp: request_statuses_def sql_like_def lower_def lower_char_def)

lemma request_downloads_Some:
  "vals res = Some row \<Longrightarrow>
   request_downloads st res = filter (\<lambda>d. d_request_id d = r_id row) (downloads st)"
  by (simp add: request_downloads_def)

lemma is_finished_blocked:
  assumes "vals res = Some row"
      and "\<exists>d \<in> set (downloads st). d_request_id d = r_id row \<and> sql_like (d_status d) ''downloading''"
  shows "is_finished cfg res st = Inr (False, st)"
proof -
  have "filter (\<lambda>d. d_request_id d = r_id row \<and> sql_like (d_status d) ''downloading'') (downloads st)
        \<noteq> []"
    using assms(2) by (auto simp: filter_empty_conv)
  then show ?thesis using assms(1) by (simp add: is_finished_def Let_def)
qed

lemma is_finished_nothing_yet:
  assumes "vals res = Some row"
      and "filter (\<lambda>d. d_request_id d = r_id row) (downloads st) = []" "downloaders res = []"
  shows "is_finished cfg res st = Inr (False, st)"
  using assms by (simp add: is_finished_def Let_def)

text \<open>
  What \<^verbatim>\<open>is_finished\<close> does when nothing is downloading and there is something to look
  at: the request is marked unless a failed download has \<^emph>\<open>more\<close> attempts than
  \<^verbatim>\<open>numretries\<close>.
\<close>

lemma is_finished_done:
  assumes "vals res = Some row"
      and nd: "\<not> (\<exists>d \<in> set (downloads st). d_request_id d = r_id row \<and> sql_like (d_status d) ''downloading'')"
      and ne: "\<not> (filter (\<lambda>d. d_request_id d = r_id row) (downloads st) = [] \<and> downloaders res = [])"
      and ex: "\<forall>d \<in> set (downloads st). d_request_id d = r_id row \<and> sql_like (d_status d) ''failed''
                 \<longrightarrow> length (attempts_of st (d_id d)) \<le> numretries cfg"
  shows "is_finished cfg res st = Inr (True, set_request_status (r_id row) ''finished'' st)"
proof -
  have 1: "filter (\<lambda>d. d_request_id d = r_id row \<and> sql_like (d_status d) ''downloading'') (downloads st) = []"
    using nd by (auto simp: filter_empty_conv)
  have 2: "\<not> (\<exists>fd \<in> set (filter (\<lambda>d. d_request_id d = r_id row \<and> sql_like (d_status d) ''failed'')
                            (downloads st)).
               numretries cfg < length (attempts_of st (d_id fd)))"
    using ex by (auto simp: not_less)
  show ?thesis using assms(1) 1 2 ne by (simp add: is_finished_def Let_def)
qed

text \<open>What \<^verbatim>\<open>is_finished\<close> computes, in one equation.\<close>

lemma is_finished_exact:
  assumes "vals res = Some row"
  shows "is_finished cfg res st =
     (if (\<exists>d \<in> set (request_downloads st res). sql_like (d_status d) ''downloading'')
         \<or> (request_downloads st res = [] \<and> downloaders res = [])
         \<or> (\<not> (\<forall>d \<in> set (request_downloads st res). sql_like (d_status d) ''downloaded'')
            \<and> (\<exists>d \<in> set (request_downloads st res). sql_like (d_status d) ''failed''
                  \<and> numretries cfg < length (attempts_of st (d_id d))))
      then Inr (False, st)
      else Inr (True, set_request_status (r_id row) ''finished'' st))"
proof -
  let ?all = "filter (\<lambda>d. d_request_id d = r_id row) (downloads st)"
  let ?fin = "filter (\<lambda>d. d_request_id d = r_id row \<and> sql_like (d_status d) ''downloaded'') (downloads st)"
  have fin: "?fin = filter (\<lambda>d. sql_like (d_status d) ''downloaded'') ?all"
    by (simp add: conj_commute)
  have eq: "length ?all = length ?fin \<longleftrightarrow> (\<forall>d \<in> set ?all. sql_like (d_status d) ''downloaded'')"
    unfolding fin
  proof
    assume "length ?all = length (filter (\<lambda>d. sql_like (d_status d) ''downloaded'') ?all)"
    then show "\<forall>d \<in> set ?all. sql_like (d_status d) ''downloaded''"
      using length_filter_less[of _ ?all "\<lambda>d. sql_like (d_status d) ''downloaded''"] by fastforce
  next
    assume "\<forall>d \<in> set ?all. sql_like (d_status d) ''downloaded''"
    then have "filter (\<lambda>d. sql_like (d_status d) ''downloaded'') ?all = ?all"
      by (simp only: filter_id_conv)
    then show "length ?all = length (filter (\<lambda>d. sql_like (d_status d) ''downloaded'') ?all)"
      by simp
  qed
  have dl: "length (filter (\<lambda>d. d_request_id d = r_id row \<and> sql_like (d_status d) ''downloading'')
              (downloads st)) > 0
            \<longleftrightarrow> (\<exists>d \<in> set ?all. sql_like (d_status d) ''downloading'')"
    by (auto simp: filter_empty_conv)
  have fl: "(\<exists>fd \<in> set (filter (\<lambda>d. d_request_id d = r_id row \<and> sql_like (d_status d) ''failed'')
                (downloads st)). numretries cfg < length (attempts_of st (d_id fd)))
            \<longleftrightarrow> (\<exists>d \<in> set ?all. sql_like (d_status d) ''failed''
                  \<and> numretries cfg < length (attempts_of st (d_id d)))"
    by auto
  show ?thesis
    unfolding is_finished_def Let_def assms option.case request_downloads_Some[OF assms] eq dl fl
    by (simp only: length_0_conv split: if_splits) blast
qed

text \<open>
  Claim C1, as stated, at two stores. With no Download row and no worker the rule of
  the specification holds (every row, of none, is downloaded) and the request is not
  marked. With one file that failed once and has two retries left the rule does not
  hold, and the request is marked \<open>finished\<close>.
\<close>

theorem completion_rule_counterexample:
  "(completion_rule ex_cfg ex_restore ex_empty_store
      \<and> \<not> marked_finished ex_cfg ex_restore ex_empty_store)
   \<and> (\<not> completion_rule ex_cfg ex_restore ex_failed_once
      \<and> marked_finished ex_cfg ex_restore ex_failed_once)"
  by code_simp

text \<open>
  Claim C1, amended. For a request in state \<open>ready\<close>: a Download that is still
  downloading blocks completion, and so does the absence of both Download rows and
  registered workers; otherwise, when every failed Download stands exactly at the
  retry ceiling (which includes the case that every Download is downloaded), the
  request is marked \<open>finished\<close>. What happens while a failed Download is below or
  above the ceiling is not part of the statement.
\<close>

theorem is_finished_by_design:
  assumes "vals res = Some row"
      and "\<forall>d \<in> set (request_downloads st res). d_status d \<in> set download_statuses"
  shows "((\<exists>d \<in> set (request_downloads st res). d_status d = ''downloading'')
            \<longrightarrow> is_finished cfg res st = Inr (False, st))
       \<and> (request_downloads st res = [] \<and> downloaders res = []
            \<longrightarrow> is_finished cfg res st = Inr (False, st))
       \<and> ((\<forall>d \<in> set (request_downloads st res). d_status d \<noteq> ''downloading'')
            \<and> \<not> (request_downloads st res = [] \<and> downloaders res = [])
            \<and> (\<forall>d \<in> set (request_downloads st res).
                  d_status d = ''failed'' \<longrightarrow> length (attempts_of st (d_id d)) = numretries cfg)
            \<longrightarrow> is_finished cfg res st
                  = Inr (True, set_request_status (r_id row) ''finished'' st))"
proof (intro conjI impI)
  note rd = request_downloads_Some[OF assms(1), of st]
  have dom: "d \<in> set (downloads st) \<Longrightarrow> d_request_id d = r_id row
             \<Longrightarrow> d_status d \<in> set download_statuses" for d
    using assms(2) by (simp add: rd)
  {
    assume "\<exists>d \<in> set (request_downloads st res). d_status d = ''downloading''"
    then obtain d where "d \<in> set (downloads st)" "d_request_id d = r_id row"
      "d_status d = ''downloading''" by (auto simp: rd)
    moreover from this have "sql_like (d_status d) ''downloading''"
      by (simp add: sql_like_def)
    ultimately show "is_finished cfg res st = Inr (False, st)"
      using is_finished_blocked[OF assms(1)] by blast
  }
  {
    assume "request_downloads st res = [] \<and> downloaders res = []"
    then show "is_finished cfg res st = Inr (False, st)"
      using is_finished_nothing_yet[OF assms(1)] by (simp add: rd)
  }
  {
    assume a: "(\<forall>d \<in> set (request_downloads st res). d_status d \<noteq> ''downloading'')
            \<and> \<not> (request_downloads st res = [] \<and> downloaders res = [])
            \<and> (\<forall>d \<in> set (request_downloads st res).
                  d_status d = ''failed'' \<longrightarrow> length (attempts_of st (d_id d)) = numretries cfg)"
    have nd: "\<not> (\<exists>d \<in> set (downloads st). d_request_id d = r_id row
                    \<and> sql_like (d_status d) ''downloading'')"
    proof
      assume "\<exists>d \<in> set (downloads st). d_request_id d = r_id row \<and> sql_like (d_status d) ''downloading''"
      then obtain d where d: "d \<in> set (downloads st)" "d_request_id d = r_id row"
        "sql_like (d_status d) ''downloading''" by blast
      then have "d_status d = ''downloading''" using like_download_status(1)[OF dom] by blast
      with a d show False by (auto simp: rd)
    qed
    have ne: "\<not> (filter (\<lambda>d. d_request_id d = r_id row) (downloads st) = [] \<and> downloaders res = [])"
      using a by (simp add: rd)
    have ex: "\<forall>d \<in> set (downloads st). d_request_id d = r_id row \<and> sql_like (d_status d) ''failed''
                 \<longrightarrow> length (attempts_of st (d_id d)) \<le> numretries cfg"
    proof (intro ballI impI)
      fix d assume d: "d \<in> set (downloads st)"
        "d_request_id d = r_id row \<and> sql_like (d_status d) ''failed''"
      then have "d_status d = ''failed''" using like_download_status(3)[OF dom] by blast
      with a d have "length (attempts_of st (d_id d)) = numretries cfg" by (auto simp: rd)
      then show "length (attempts_of st (d_id d)) \<le> numretries cfg" by simp
    qed
    show "is_finished cfg res st = Inr (True, set_request_status (r_id row) ''finished'' st)"
      using is_finished_done[OF assms(1) nd ne ex] .
  }
qed

theorem is_finished_by_design_witness:
  "is_finished ex_cfg ex_restore ex_in_flight = Inr (False, ex_in_flight)
   \<and> is_finished ex_cfg ex_restore ex_empty_store = Inr (False, ex_empty_store)
   \<and> is_finished ex_cfg ex_restore ex_exhausted
       = Inr (True, set_request_status (r_id ex_request) ''finished'' ex_exhausted)"
proof -
  have v: "vals ex_restore = Some ex_request" by (simp add: ex_restore_def)
  have d1: "\<forall>d \<in> set (request_downloads ex_in_flight ex_restore). d_status d \<in> set download_statuses"
    by code_simp
  have d2: "\<forall>d \<in> set (request_downloads ex_empty_store ex_restore). d_status d \<in> set download_statuses"
    by code_simp
  have d3: "\<forall>d \<in> set (request_downloads ex_exhausted ex_restore). d_status d \<in> set download_statuses"
    by code_simp
  have h1: "\<exists>d \<in> set (request_downloads ex_in_flight ex_restore). d_status d = ''downloading''"
    by code_simp
  have h2: "request_downloads ex_empty_store ex_restore = [] \<and> downloaders ex_restore = []"
    by code_simp
  have h3: "(\<forall>d \<in> set (request_downloads ex_exhausted ex_restore). d_status d \<noteq> ''downloading'')
            \<and> \<not> (request_downloads ex_exhausted ex_restore = [] \<and> downloaders ex_restore = [])
            \<and> (\<forall>d \<in> set (request_downloads ex_exhausted ex_restore).
                  d_status d = ''failed''
                  \<longrightarrow> length (attempts_of ex_exhausted (d_id d)) = numretries ex_cfg)"
    by code_simp
  have c1: "is_finished ex_cfg ex_restore ex_in_flight = Inr (False, ex_in_flight)"
    using is_finished_by_design[OF v d1, of ex_cfg] h1 by blast
  have c2: "is_finished ex_cfg ex_restore ex_empty_store = Inr (False, ex_empty_store)"
    using is_finished_by_design[OF v d2, of ex_cfg] h2 by blast
  have c3: "is_finished ex_cfg ex_restore ex_exhausted
       = Inr (True, set_request_status (r_id ex_request) ''finished'' ex_exhausted)"
    using is_finished_by_design[OF v d3, of ex_cfg] h3 by blast
  show ?thesis using c1 c2 c3 by (intro conjI)
qed

text \<open>
  In the scenario of the specification (sizes 100, 200, 300; two files downloaded, one
  failed three times, \<open>numretries = 3\<close>) the request ends \<open>finished\<close>.
\<close>

lemma exhausted_scenario_finished:
  "map_sum id (\<lambda>(done, st). (done, map r_status (requests st))) (is_finished ex_cfg ex_restore ex_exhausted)
   = Inr (True, [''finished''])"
  by code_simp

lemma no_rows_no_workers:
  assumes "vals res = Some row" "request_downloads st res = []" "workers_have_rows res st"
  shows "downloaders res = []"
  using assms by (cases "downloaders res") (auto simp: workers_have_rows_def)

text \<open>
  Claim C10. A ready request with no Download row in the store and no live worker is
  not finished, and its persisted status is left as it is: \<^verbatim>\<open>is_finished\<close> returns
  false with the store unchanged. Workers are registered only for Download rows of
  the request (\<open>workers_have_rows\<close>, which \<^verbatim>\<open>restore.download\<close> maintains), so without
  rows there is no registered worker at all.
\<close>

theorem unmaterialized_request_not_finished:
  assumes "vals res = Some row"
      and "request_downloads st res = []"
      and "\<forall>w \<in> snd ` set (downloaders res). \<not> is_alive w"
      and "workers_have_rows res st"
  shows "is_finished cfg res st = Inr (False, st)"
proof -
  have "downloaders res = []" using no_rows_no_workers[OF assms(1,2,4)] .
  moreover have "filter (\<lambda>d. d_request_id d = r_id row) (downloads st) = []"
    using assms(1,2) by (simp add: request_downloads_def)
  ultimately show ?thesis using assms(1) by (simp add: is_finished_def Let_def)
qed

theorem unmaterialized_request_not_finished_witness:
  "is_finished ex_cfg ex_restore ex_unmaterialized = Inr (False, ex_unmaterialized)"
proof -
  have v: "vals ex_restore = Some ex_request" by (simp add: ex_restore_def)
  have r: "request_downloads ex_unmaterialized ex_restore = []" by code_simp
  have a: "\<forall>w \<in> snd ` set (downloaders ex_restore). \<not> is_alive w" by (simp add: ex_restore_def)
  have i: "workers_have_rows ex_restore ex_unmaterialized"
    by (simp add: workers_have_rows_def ex_restore_def)
  show ?thesis by (rule unmaterialized_request_not_finished[OF v r a i])
qed


section \<open>Recovery\<close>

lemma guid_restore_init: "guid (restore_init st g) = g"
  by (simp add: restore_init_def)

text \<open>
  Claim C9. On startup recovery loads exactly the persisted requests whose status is
  not \<open>finished\<close>: the working set holds, in the order of the table, one restore object
  for each such request, under its guid, and none for a finished one. The statuses are
  those of the data model.
\<close>

theorem recover_loads_unfinished:
  assumes "\<forall>r \<in> set (requests st). r_status r \<in> set request_statuses"
  shows "map guid (recover st)
         = map (\<lambda>r. Some (r_guid r)) (filter (\<lambda>r. r_status r \<noteq> ''finished'') (requests st))"
proof -
  have "filter (\<lambda>r. \<not> sql_like (r_status r) ''finished'') (requests st)
        = filter (\<lambda>r. r_status r \<noteq> ''finished'') (requests st)"
    using assms by (intro filter_cong) (auto simp: like_request_status)
  then show ?thesis by (simp add: recover_def guid_restore_init comp_def)
qed

theorem recover_loads_unfinished_witness:
  "map guid (recover ex_requests) = [Some ''g1'', Some ''g3'', Some ''g4'']"
proof -
  have h: "\<forall>r \<in> set (requests ex_requests). r_status r \<in> set request_statuses" by code_simp
  have "map guid (recover ex_requests)
        = map (\<lambda>r. Some (r_guid r)) (filter (\<lambda>r. r_status r \<noteq> ''finished'') (requests ex_requests))"
    by (rule recover_loads_unfinished[OF h])
  also have "\<dots> = [Some ''g1'', Some ''g3'', Some ''g4'']" by code_simp
  finally show ?thesis .
qed

text \<open>Each restore object recovery builds holds the row of its request, found by guid.\<close>

lemma recover_reads_rows:
  "res \<in> set (recover st) \<Longrightarrow>
   \<exists>r \<in> set (requests st). guid res = Some (r_guid r) \<and> \<not> sql_like (r_status r) ''finished''
      \<and> (r_guid r \<noteq> [] \<longrightarrow> vals res = get_by_guid st (r_guid r))"
  by (auto simp: recover_def restore_init_def)


section \<open>Starting workers\<close>

lemma attempts_of_insert:
  "insert_attempt did st = (n, st') \<Longrightarrow>
   attempts_of st' x =
     (if x = did
      then attempts_of st x @ [\<lparr>a_id = n, a_download_id = did, a_status = None, a_details = None\<rparr>]
      else attempts_of st x)"
  by (auto simp: insert_attempt_def attempts_of_def Let_def)

lemma fold_max_bounds: "a \<le> fold max ids (a::nat) \<and> (\<forall>x \<in> set ids. x \<le> fold max ids a)"
proof (induction ids arbitrary: a)
  case Nil
  then show ?case by simp
next
  case (Cons i ids)
  from Cons.IH[of "max i a"] show ?case by auto
qed

lemma next_id_fresh: "next_id ids \<notin> set ids"
  using fold_max_bounds[of 0 ids] by (auto simp: next_id_def)

text \<open>
  One step of the first loop of \<^verbatim>\<open>download\<close>: either a worker and an attempt row are
  created, and then the count was below the ceiling, or nothing changes.
\<close>

lemma start_workers_step:
  obtains (spawn) n st1 where
      "map_of ws (d_remote_filename e) = None" "length (attempts_of st (d_id e)) < numretries cfg"
      "insert_attempt (d_id e) st = (n, st1)"
      "start_workers cfg dir (e # es) (ws, st) =
         start_workers cfg dir es
           (ws @ [(d_remote_filename e, (new_downloader dir (d_remote_filename e) n)\<lparr>is_alive := True\<rparr>)],
            st1)"
    | (skip) "start_workers cfg dir (e # es) (ws, st) = start_workers cfg dir es (ws, st)"
proof (cases "map_of ws (d_remote_filename e) = None
              \<and> numretries cfg > length (attempts_of st (d_id e))")
  case True
  obtain n st1 where i: "insert_attempt (d_id e) st = (n, st1)"
    by (cases "insert_attempt (d_id e) st")
  show ?thesis
  proof (rule spawn[OF _ _ i])
    show "map_of ws (d_remote_filename e) = None" using True by simp
    show "length (attempts_of st (d_id e)) < numretries cfg" using True by simp
    show "start_workers cfg dir (e # es) (ws, st) =
         start_workers cfg dir es
           (ws @ [(d_remote_filename e, (new_downloader dir (d_remote_filename e) n)\<lparr>is_alive := True\<rparr>)],
            st1)"
      using True i by simp
  qed
next
  case False
  show ?thesis
  proof (rule skip)
    show "start_workers cfg dir (e # es) (ws, st) = start_workers cfg dir es (ws, st)"
      using False by auto
  qed
qed

lemma start_workers_growth:
  "start_workers cfg dir entries (ws, st) = (ws', st') \<Longrightarrow>
   length (attempts_of st x) \<le> length (attempts_of st' x) \<and>
   length (attempts_of st' x) \<le> max (length (attempts_of st x)) (numretries cfg)"
proof (induction entries arbitrary: ws st)
  case Nil
  then show ?case by simp
next
  case (Cons e es)
  show ?case
  proof (cases rule: start_workers_step[of ws e st cfg dir es])
    case (spawn n st1)
    have s: "start_workers cfg dir es
               (ws @ [(d_remote_filename e, (new_downloader dir (d_remote_filename e) n)\<lparr>is_alive := True\<rparr>)], st1) = (ws', st')"
      using Cons.prems(1) unfolding spawn(4) .
    from Cons.IH[OF s] have
      "length (attempts_of st1 x) \<le> length (attempts_of st' x)"
      "length (attempts_of st' x) \<le> max (length (attempts_of st1 x)) (numretries cfg)"
      by auto
    moreover have "length (attempts_of st1 x)
                   = (if x = d_id e then length (attempts_of st x) + 1 else length (attempts_of st x))"
      using attempts_of_insert[OF spawn(3), of x] by simp
    ultimately show ?thesis using spawn(2) by (auto split: if_splits)
  next
    case skip
    have "start_workers cfg dir es (ws, st) = (ws', st')"
      using Cons.prems(1) unfolding skip .
    from Cons.IH[OF this] show ?thesis .
  qed
qed

lemma start_workers_at_ceiling:
  "start_workers cfg dir entries (ws, st) = (ws', st') \<Longrightarrow>
   numretries cfg \<le> length (attempts_of st x) \<Longrightarrow> attempts_of st' x = attempts_of st x"
proof (induction entries arbitrary: ws st)
  case Nil
  then show ?case by simp
next
  case (Cons e es)
  show ?case
  proof (cases rule: start_workers_step[of ws e st cfg dir es])
    case (spawn n st1)
    from spawn(2) Cons.prems(2) have "x \<noteq> d_id e" by auto
    then have "attempts_of st1 x = attempts_of st x"
      using attempts_of_insert[OF spawn(3), of x] by simp
    moreover have s: "start_workers cfg dir es
               (ws @ [(d_remote_filename e, (new_downloader dir (d_remote_filename e) n)\<lparr>is_alive := True\<rparr>)], st1) = (ws', st')"
      using Cons.prems(1) unfolding spawn(4) .
    ultimately show ?thesis using Cons.IH[OF s] Cons.prems(2) by simp
  next
    case skip
    have "start_workers cfg dir es (ws, st) = (ws', st')"
      using Cons.prems(1) unfolding skip .
    from Cons.IH[OF this Cons.prems(2)] show ?thesis .
  qed
qed

lemma start_workers_appends:
  "start_workers cfg dir entries (ws, st) = (ws', st') \<Longrightarrow>
   (\<exists>more. download_attempts st' = download_attempts st @ more) \<and> downloads st' = downloads st
   \<and> requests st' = requests st"
proof (induction entries arbitrary: ws st)
  case Nil
  then show ?case by simp
next
  case (Cons e es)
  show ?case
  proof (cases rule: start_workers_step[of ws e st cfg dir es])
    case (spawn n st1)
    from spawn(3) have "\<exists>m. download_attempts st1 = download_attempts st @ m"
      "downloads st1 = downloads st" "requests st1 = requests st"
      by (auto simp: insert_attempt_def Let_def)
    moreover have s: "start_workers cfg dir es
               (ws @ [(d_remote_filename e, (new_downloader dir (d_remote_filename e) n)\<lparr>is_alive := True\<rparr>)], st1) = (ws', st')"
      using Cons.prems(1) unfolding spawn(4) .
    ultimately show ?thesis using Cons.IH[OF s] by auto
  next
    case skip
    have "start_workers cfg dir es (ws, st) = (ws', st')"
      using Cons.prems(1) unfolding skip .
    from Cons.IH[OF this] show ?thesis .
  qed
qed

text \<open>
  Every worker the loop registers carries the id of an attempt row the loop has
  inserted, and that row belongs to a Download that was below the ceiling.
\<close>

lemma start_workers_new_worker:
  "start_workers cfg dir entries (ws, st) = (ws', st') \<Longrightarrow> (k, w) \<in> set ws' \<Longrightarrow>
   (k, w) \<in> set ws \<or>
   (\<exists>a \<in> set (download_attempts st'). a_id a = attempt_id w
        \<and> a_id a \<notin> a_id ` set (download_attempts st)
        \<and> length (attempts_of st (a_download_id a)) < numretries cfg)"
proof (induction entries arbitrary: ws st)
  case Nil
  then show ?case by simp
next
  case (Cons e es)
  show ?case
  proof (cases rule: start_workers_step[of ws e st cfg dir es])
    case (spawn n st1)
    let ?new = "(d_remote_filename e, (new_downloader dir (d_remote_filename e) n)\<lparr>is_alive := True\<rparr>)"
    let ?row = "\<lparr>a_id = n, a_download_id = d_id e, a_status = None, a_details = None\<rparr>"
    have s: "start_workers cfg dir es (ws @ [?new], st1) = (ws', st')"
      using Cons.prems(1) unfolding spawn(4) .
    from spawn(3) have st1: "download_attempts st1 = download_attempts st @ [?row]"
      and n: "n = next_id (map a_id (download_attempts st))"
      by (auto simp: insert_attempt_def Let_def)
    from start_workers_appends[OF s] obtain more where
      more: "download_attempts st' = download_attempts st1 @ more" by blast
    have fresh: "n \<notin> a_id ` set (download_attempts st)"
      using next_id_fresh[of "map a_id (download_attempts st)"] n by simp
    from Cons.IH[OF s Cons.prems(2)] consider
        (old) "(k, w) \<in> set ws" | (this) "(k, w) = ?new"
      | (later) a where "a \<in> set (download_attempts st')" "a_id a = attempt_id w"
          "a_id a \<notin> a_id ` set (download_attempts st1)"
          "length (attempts_of st1 (a_download_id a)) < numretries cfg"
      by auto
    then show ?thesis
    proof cases
      case old
      then show ?thesis by simp
    next
      case this
      then have "attempt_id w = n" by (auto simp: new_downloader_def)
      moreover have "?row \<in> set (download_attempts st')" using more st1 by simp
      ultimately show ?thesis using fresh spawn(2) by force
    next
      case later
      have "length (attempts_of st (a_download_id a)) \<le> length (attempts_of st1 (a_download_id a))"
        using attempts_of_insert[OF spawn(3), of "a_download_id a"] by (simp split: if_splits)
      moreover have "a_id a \<notin> a_id ` set (download_attempts st)" using later(3) st1 by auto
      ultimately show ?thesis using later by force
    qed
  next
    case skip
    have "start_workers cfg dir es (ws, st) = (ws', st')"
      using Cons.prems(1) unfolding skip .
    from Cons.IH[OF this Cons.prems(2)] show ?thesis .
  qed
qed

text \<open>
  Claim C5. A worker and its attempt row are created only for a Download whose
  attempt count is strictly below the retry ceiling. For the loop of \<^verbatim>\<open>download\<close> that
  starts workers, and every Download \<open>x\<close>: the count grows only if it was below
  \<open>numretries\<close>; it ends at most at the larger of \<open>numretries\<close> and what it was, so a
  count within the ceiling stays within it; at the ceiling the attempt rows of \<open>x\<close> are
  left as they are; and every worker the loop registers carries a newly inserted
  attempt row of a Download that was below the ceiling.
\<close>

theorem workers_start_below_ceiling:
  assumes "start_workers cfg dir entries (ws, st) = (ws', st')"
  shows "(length (attempts_of st x) < length (attempts_of st' x)
            \<longrightarrow> length (attempts_of st x) < numretries cfg)
       \<and> length (attempts_of st' x) \<le> max (length (attempts_of st x)) (numretries cfg)
       \<and> (numretries cfg \<le> length (attempts_of st x) \<longrightarrow> attempts_of st' x = attempts_of st x)
       \<and> (\<forall>(k, w) \<in> set ws'.
             (k, w) \<in> set ws \<or>
             (\<exists>a \<in> set (download_attempts st'). a_id a = attempt_id w
                \<and> a_id a \<notin> a_id ` set (download_attempts st)
                \<and> length (attempts_of st (a_download_id a)) < numretries cfg))"
proof (intro conjI)
  from start_workers_growth[OF assms, of x]
  show "length (attempts_of st x) < length (attempts_of st' x)
            \<longrightarrow> length (attempts_of st x) < numretries cfg"
    by (auto simp: max_def split: if_splits)
  from start_workers_growth[OF assms, of x]
  show "length (attempts_of st' x) \<le> max (length (attempts_of st x)) (numretries cfg)" by simp
  from start_workers_at_ceiling[OF assms, of x]
  show "numretries cfg \<le> length (attempts_of st x) \<longrightarrow> attempts_of st' x = attempts_of st x"
    by simp
  from start_workers_new_worker[OF assms]
  show "\<forall>(k, w) \<in> set ws'.
             (k, w) \<in> set ws \<or>
             (\<exists>a \<in> set (download_attempts st'). a_id a = attempt_id w
                \<and> a_id a \<notin> a_id ` set (download_attempts st)
                \<and> length (attempts_of st (a_download_id a)) < numretries cfg)"
    by blast
qed

theorem workers_start_below_ceiling_witness:
  "attempts_of (snd (start_workers ex_cfg (Some ''9818e194'') (downloads ex_retry) ([], ex_retry))) 1
     = attempts_of ex_retry 1
   \<and> length (attempts_of ex_retry 1) = 3
   \<and> length (attempts_of ex_retry 2) = 1
   \<and> length (attempts_of
        (snd (start_workers ex_cfg (Some ''9818e194'') (downloads ex_retry) ([], ex_retry))) 2) = 2
   \<and> map fst (fst (start_workers ex_cfg (Some ''9818e194'') (downloads ex_retry) ([], ex_retry)))
     = [''b.fits'']"
proof -
  let ?r = "start_workers ex_cfg (Some ''9818e194'') (downloads ex_retry) ([], ex_retry)"
  have h: "?r = (fst ?r, snd ?r)" by simp
  have c: "numretries ex_cfg \<le> length (attempts_of ex_retry 1)" by code_simp
  have 1: "attempts_of (snd ?r) 1 = attempts_of ex_retry 1"
    using workers_start_below_ceiling[OF h, of 1] c by blast
  have 2: "length (attempts_of ex_retry 1) = 3" by code_simp
  have 3: "length (attempts_of ex_retry 2) = 1" by code_simp
  have 4: "length (attempts_of (snd ?r) 2) = 2" by code_simp
  have 5: "map fst (fst ?r) = [''b.fits'']" by code_simp
  show ?thesis using 1 2 3 4 5 by (intro conjI)
qed


section \<open>Reconciling finished workers\<close>

lemma filter_by_distinct_key:
  "distinct (map f xs) \<Longrightarrow> x \<in> set xs \<Longrightarrow> filter (\<lambda>y. f y = f x) xs = [x]"
proof (induction xs)
  case Nil
  then show ?case by simp
next
  case (Cons y ys)
  show ?case
  proof (cases "y = x")
    case True
    with Cons.prems(1) have "filter (\<lambda>z. f z = f x) ys = []"
      by (auto simp: filter_empty_conv image_iff)
    with True show ?thesis by simp
  next
    case False
    with Cons.prems have "x \<in> set ys" "f y \<noteq> f x" by auto
    with Cons show ?thesis by simp
  qed
qed

text \<open>
  \<^verbatim>\<open>downloaded_size_match\<close> compares the size on disk of the local file of the Download
  that owns the attempt with the size recorded for it; a missing file does not match.
\<close>

lemma size_match_owner:
  assumes "a \<in> set (download_attempts st)" "distinct (map a_id (download_attempts st))"
      and "d \<in> set (downloads st)" "d_id d = a_download_id a" "distinct (map d_id (downloads st))"
  shows "downloaded_size_match disk st (a_id a) = Inr (disk (d_filename d) = Some (d_size d))"
proof -
  have 1: "filter (\<lambda>y. a_id y = a_id a) (download_attempts st) = [a]"
    using filter_by_distinct_key[OF assms(2,1)] .
  have 2: "filter (\<lambda>y. d_id y = a_download_id a) (downloads st) = [d]"
    using filter_by_distinct_key[OF assms(5,3)] assms(4) by simp
  show ?thesis by (simp add: downloaded_size_match_def 1 2 split: option.splits)
qed

lemma record_outcome_rows:
  "map a_id (download_attempts (record_outcome f w v st)) = map a_id (download_attempts st)"
  "map a_download_id (download_attempts (record_outcome f w v st))
     = map a_download_id (download_attempts st)"
  "map d_id (downloads (record_outcome f w v st)) = map d_id (downloads st)"
  "requests (record_outcome f w v st) = requests st"
  by (simp_all add: record_outcome_def update_downloads_def update_attempt_def comp_def)

lemma record_outcome_owner:
  assumes "a \<in> set (download_attempts st)" "a_id a = attempt_id w"
      and "d \<in> set (downloads st)" "d_remote_filename d = f"
  shows "a\<lparr>a_status := Some v, a_details := Some (unquote (details w))\<rparr>
           \<in> set (download_attempts (record_outcome f w v st))"
    and "d\<lparr>d_status := v, d_details := unquote (details w)\<rparr>
           \<in> set (downloads (record_outcome f w v st))"
  using assms
  by (auto simp: record_outcome_def update_downloads_def update_attempt_def image_iff
           intro!: bexI[of _ a] bexI[of _ d])

lemma reconcile_attempt_ids:
  "reconcile disk f (ws, st) = (err, ws', st') \<Longrightarrow>
   map a_id (download_attempts st') = map a_id (download_attempts st) \<and>
   map a_download_id (download_attempts st') = map a_download_id (download_attempts st)"
  by (auto simp: reconcile_def record_outcome_rows split: option.splits if_splits sum.splits bool.splits)

lemma reconcile_all_attempt_ids:
  "reconcile_all disk keys (ws, st) = (err, ws', st') \<Longrightarrow>
   map a_id (download_attempts st') = map a_id (download_attempts st) \<and>
   map a_download_id (download_attempts st') = map a_download_id (download_attempts st)"
proof (induction keys arbitrary: ws st)
  case Nil
  then show ?case by simp
next
  case (Cons k ks)
  obtain e1 ws1 st1 where r: "reconcile disk k (ws, st) = (e1, ws1, st1)"
    by (cases "reconcile disk k (ws, st)")
  note 1 = reconcile_attempt_ids[OF r]
  show ?case
  proof (cases e1)
    case None
    with r Cons.prems have "reconcile_all disk ks (ws1, st1) = (err, ws', st')" by simp
    from Cons.IH[OF this] 1 show ?thesis by simp
  next
    case (Some e)
    with r Cons.prems have "st' = st1" by simp
    with 1 show ?thesis by simp
  qed
qed

text \<open>
  Claim C3. When a worker has ended reporting \<open>downloaded\<close>, reconciliation writes
  \<open>downloaded\<close> to the Download row and to the attempt row that owns the worker only if
  the local file exists with exactly the recorded size; otherwise it writes \<open>failed\<close>
  to both. The second loop of \<^verbatim>\<open>download\<close> never adds an attempt row: the ids of the
  attempt rows are the same after it as before. Row ids are unique, as the store's
  primary keys are.
\<close>

theorem reconcile_downloaded:
  assumes "map_of ws filename = Some w" "\<not> is_alive w" "status w = ''downloaded''"
      and "a \<in> set (download_attempts st)" "a_id a = attempt_id w"
          "distinct (map a_id (download_attempts st))"
      and "d \<in> set (downloads st)" "d_id d = a_download_id a"
          "distinct (map d_id (downloads st))" "d_remote_filename d = filename"
  shows "(\<exists>ws' st'. reconcile disk filename (ws, st) = (None, ws', st')
           \<and> d\<lparr>d_status := size_verdict disk d, d_details := unquote (details w)\<rparr>
               \<in> set (downloads st')
           \<and> a\<lparr>a_status := Some (size_verdict disk d), a_details := Some (unquote (details w))\<rparr>
               \<in> set (download_attempts st')
           \<and> map a_id (download_attempts st') = map a_id (download_attempts st)
           \<and> map d_id (downloads st') = map d_id (downloads st))
       \<and> map a_id (download_attempts (snd (snd (reconcile_all disk keys (ws, st)))))
           = map a_id (download_attempts st)"
proof
  have m: "downloaded_size_match disk st (attempt_id w)
           = Inr (disk (d_filename d) = Some (d_size d))"
    using size_match_owner[OF assms(4) assms(6) assms(7) assms(8) assms(9)] assms(5) by simp
  have r: "reconcile disk filename (ws, st) =
           (None, filter (\<lambda>(k, _). k \<noteq> filename) ws,
            record_outcome filename w (size_verdict disk d) st)"
    using assms(1,2,3) m by (simp add: reconcile_def size_verdict_def)
  show "\<exists>ws' st'. reconcile disk filename (ws, st) = (None, ws', st')
           \<and> d\<lparr>d_status := size_verdict disk d, d_details := unquote (details w)\<rparr>
               \<in> set (downloads st')
           \<and> a\<lparr>a_status := Some (size_verdict disk d), a_details := Some (unquote (details w))\<rparr>
               \<in> set (download_attempts st')
           \<and> map a_id (download_attempts st') = map a_id (download_attempts st)
           \<and> map d_id (downloads st') = map d_id (downloads st)"
    using r record_outcome_owner[OF assms(4) assms(5) assms(7) assms(10), of "size_verdict disk d"]
      record_outcome_rows[of filename w "size_verdict disk d" st]
    by simp
next
  obtain err ws' st' where "reconcile_all disk keys (ws, st) = (err, ws', st')"
    by (cases "reconcile_all disk keys (ws, st)")
  from reconcile_all_attempt_ids[OF this] this
  show "map a_id (download_attempts (snd (snd (reconcile_all disk keys (ws, st)))))
           = map a_id (download_attempts st)"
    by simp
qed


theorem reconcile_downloaded_witness:
  "map d_status (downloads (snd (snd (reconcile ex_disk_short ''b.fits''
        ([(''b.fits'', ex_done_worker)], ex_in_flight))))) = [''downloaded'', ''failed'']
   \<and> map a_status (download_attempts (snd (snd (reconcile ex_disk_short ''b.fits''
        ([(''b.fits'', ex_done_worker)], ex_in_flight))))) = [Some ''downloaded'', Some ''failed'']
   \<and> map d_status (downloads (snd (snd (reconcile ex_disk_full ''b.fits''
        ([(''b.fits'', ex_done_worker)], ex_in_flight))))) = [''downloaded'', ''downloaded'']
   \<and> (\<exists>ws' st'. reconcile ex_disk_short ''b.fits'' ([(''b.fits'', ex_done_worker)], ex_in_flight)
                    = (None, ws', st')
         \<and> (ex_download 2 ''b.fits'' ''downloading'' 200)
              \<lparr>d_status := ''failed'', d_details := ''Completed''\<rparr> \<in> set (downloads st')
         \<and> (ex_attempt 2 2 ''downloading'')
              \<lparr>a_status := Some ''failed'', a_details := Some ''Completed''\<rparr>
              \<in> set (download_attempts st')
         \<and> map a_id (download_attempts st') = [1, 2]
         \<and> map d_id (downloads st') = map d_id (downloads ex_in_flight))"
proof -
  let ?ws = "[(''b.fits'', ex_done_worker)]"
  let ?d = "ex_download 2 ''b.fits'' ''downloading'' 200"
  let ?a = "ex_attempt 2 2 ''downloading''"
  have h1: "map_of ?ws ''b.fits'' = Some ex_done_worker" by simp
  have h2: "\<not> is_alive ex_done_worker" by code_simp
  have h3: "status ex_done_worker = ''downloaded''" by code_simp
  have h4: "?a \<in> set (download_attempts ex_in_flight)" by (simp add: ex_in_flight_def)
  have h5: "a_id ?a = attempt_id ex_done_worker" by code_simp
  have h6: "distinct (map a_id (download_attempts ex_in_flight))" by code_simp
  have h7: "?d \<in> set (downloads ex_in_flight)" by (simp add: ex_in_flight_def)
  have h8: "d_id ?d = a_download_id ?a" by code_simp
  have h9: "distinct (map d_id (downloads ex_in_flight))" by code_simp
  have h10: "d_remote_filename ?d = ''b.fits''" by code_simp
  have v: "size_verdict ex_disk_short ?d = ''failed''" by code_simp
  have u: "unquote (details ex_done_worker) = ''Completed''" by code_simp
  have i: "map a_id (download_attempts ex_in_flight) = [1, 2]" by code_simp
  have 4: "\<exists>ws' st'. reconcile ex_disk_short ''b.fits'' (?ws, ex_in_flight) = (None, ws', st')
         \<and> ?d\<lparr>d_status := ''failed'', d_details := ''Completed''\<rparr> \<in> set (downloads st')
         \<and> ?a\<lparr>a_status := Some ''failed'', a_details := Some ''Completed''\<rparr>
              \<in> set (download_attempts st')
         \<and> map a_id (download_attempts st') = [1, 2]
         \<and> map d_id (downloads st') = map d_id (downloads ex_in_flight)"
    using reconcile_downloaded[OF h1 h2 h3 h4 h5 h6 h7 h8 h9 h10, of ex_disk_short "[]",
            THEN conjunct1]
    unfolding v u i .
  have 1: "map d_status (downloads (snd (snd (reconcile ex_disk_short ''b.fits''
        (?ws, ex_in_flight))))) = [''downloaded'', ''failed'']" by code_simp
  have 2: "map a_status (download_attempts (snd (snd (reconcile ex_disk_short ''b.fits''
        (?ws, ex_in_flight))))) = [Some ''downloaded'', Some ''failed'']" by code_simp
  have 3: "map d_status (downloads (snd (snd (reconcile ex_disk_full ''b.fits''
        (?ws, ex_in_flight))))) = [''downloaded'', ''downloaded'']" by code_simp
  show ?thesis using 1 2 3 4 by (intro conjI)
qed


section \<open>One call of download\<close>

lemma download_steps:
  assumes "vals res = Some row"
  obtains st1 entries ws st2 e3 ws3 st3 where
    "st1 = st \<or> st1 = create_dl_entries cfg (r_id row) (files res) st"
    "set entries \<subseteq> {d \<in> set (downloads st1). d_request_id d = r_id row}"
    "start_workers cfg (guid res) entries (downloaders res, st1) = (ws, st2)"
    "reconcile_all disk (map fst ws) (map (\<lambda>(k, w). (k, seen w)) ws, st2) = (e3, ws3, st3)"
    "download cfg disk seen res st = (e3, res\<lparr>downloaders := ws3\<rparr>, st3)"
proof -
  define st1 where
    "st1 = (if downloaders res = [] \<and> filter (\<lambda>d. d_request_id d = r_id row) (downloads st) = []
            then create_dl_entries cfg (r_id row) (files res) st else st)"
  define entries where
    "entries = filter (\<lambda>d. d_request_id d = r_id row \<and> \<not> sql_like (d_status d) ''downloaded'')
                 (downloads st1)"
  obtain ws st2 where sw: "start_workers cfg (guid res) entries (downloaders res, st1) = (ws, st2)"
    by (cases "start_workers cfg (guid res) entries (downloaders res, st1)")
  obtain e3 ws3 st3 where
    ra: "reconcile_all disk (map fst ws) (map (\<lambda>(k, w). (k, seen w)) ws, st2) = (e3, ws3, st3)"
    by (cases "reconcile_all disk (map fst ws) (map (\<lambda>(k, w). (k, seen w)) ws, st2)")
  have d: "download cfg disk seen res st = (e3, res\<lparr>downloaders := ws3\<rparr>, st3)"
    unfolding download_def Let_def assms option.case st1_def[symmetric] entries_def[symmetric]
      sw prod.case ra
    by (rule refl)
  have 1: "st1 = st \<or> st1 = create_dl_entries cfg (r_id row) (files res) st"
    by (simp add: st1_def)
  have 2: "set entries \<subseteq> {d \<in> set (downloads st1). d_request_id d = r_id row}"
    by (auto simp: entries_def)
  from that[OF 1 2 sw ra d] show thesis .
qed

lemma create_dl_entries_appends:
  "\<exists>more. downloads (create_dl_entries cfg rid fs st) = downloads st @ more"
proof (induction fs arbitrary: st)
  case Nil
  then show ?case by simp
next
  case (Cons p fs)
  obtain f sz where p: "p = (f, sz)" by (cases p)
  show ?case
  proof (cases "filter (\<lambda>d. d_request_id d = rid \<and> d_filename d = f) (downloads st) = []")
    case True
    let ?row = "\<lparr>d_id = next_id (map d_id (downloads st)), d_request_id = rid,
                 d_remote_filename = f, d_filename = path_join (temp cfg) f,
                 d_status = ''New'', d_details = [], d_size = sz\<rparr>"
    from Cons.IH[of "st\<lparr>downloads := downloads st @ [?row]\<rparr>"]
    obtain more where
      "downloads (create_dl_entries cfg rid fs (st\<lparr>downloads := downloads st @ [?row]\<rparr>))
        = (downloads st @ [?row]) @ more" by auto
    then show ?thesis using True p by (intro exI[of _ "?row # more"]) (simp add: Let_def)
  next
    case False
    then show ?thesis using Cons.IH[of st] p by (simp add: Let_def)
  qed
qed

lemma create_dl_entries_attempts:
  "download_attempts (create_dl_entries cfg rid fs st) = download_attempts st"
  by (induction fs arbitrary: st) (auto simp: Let_def)

lemma start_workers_keys:
  "start_workers cfg dir entries (ws, st) = (ws', st') \<Longrightarrow>
   fst ` set ws' \<subseteq> fst ` set ws \<union> d_remote_filename ` set entries"
proof (induction entries arbitrary: ws st)
  case Nil
  then show ?case by simp
next
  case (Cons e es)
  show ?case
  proof (cases rule: start_workers_step[of ws e st cfg dir es])
    case (spawn n st1)
    have s: "start_workers cfg dir es
               (ws @ [(d_remote_filename e, (new_downloader dir (d_remote_filename e) n)\<lparr>is_alive := True\<rparr>)], st1) = (ws', st')"
      using Cons.prems(1) unfolding spawn(4) .
    from Cons.IH[OF s] show ?thesis by auto
  next
    case skip
    have "start_workers cfg dir es (ws, st) = (ws', st')"
      using Cons.prems(1) unfolding skip .
    from Cons.IH[OF this] show ?thesis by auto
  qed
qed

lemma record_outcome_row_keys:
  "row_keys (downloads (record_outcome f w v st)) = row_keys (downloads st)"
  by (simp add: row_keys_def record_outcome_def update_downloads_def update_attempt_def comp_def)

lemma reconcile_keeps:
  "reconcile disk f (ws, st) = (err, ws', st') \<Longrightarrow>
   fst ` set ws' \<subseteq> fst ` set ws \<and> row_keys (downloads st') = row_keys (downloads st)"
  by (auto simp: reconcile_def record_outcome_row_keys
           split: option.splits if_splits sum.splits bool.splits)

lemma reconcile_all_keeps:
  "reconcile_all disk keys (ws, st) = (err, ws', st') \<Longrightarrow>
   fst ` set ws' \<subseteq> fst ` set ws \<and> row_keys (downloads st') = row_keys (downloads st)"
proof (induction keys arbitrary: ws st)
  case Nil
  then show ?case by simp
next
  case (Cons k ks)
  obtain e1 ws1 st1 where r: "reconcile disk k (ws, st) = (e1, ws1, st1)"
    by (cases "reconcile disk k (ws, st)")
  note 1 = reconcile_keeps[OF r]
  show ?case
  proof (cases e1)
    case None
    with r Cons.prems have "reconcile_all disk ks (ws1, st1) = (err, ws', st')" by simp
    from Cons.IH[OF this] 1 show ?thesis by auto
  next
    case (Some e)
    with r Cons.prems have "st' = st1" "ws' = ws1" by simp_all
    with 1 show ?thesis by simp
  qed
qed

lemma request_names_by_keys:
  "d_remote_filename ` {d \<in> set ds. d_request_id d = rid}
   = snd ` {p \<in> set (row_keys ds). fst p = rid}"
  by (force simp: row_keys_def image_iff)

lemma workers_have_rows_alt:
  "vals res = Some row \<Longrightarrow>
   workers_have_rows res st \<longleftrightarrow>
   fst ` set (downloaders res)
     \<subseteq> d_remote_filename ` {d \<in> set (downloads st). d_request_id d = r_id row}"
  by (auto simp: workers_have_rows_def request_downloads_def)

text \<open>
  \<^verbatim>\<open>download\<close> keeps every registered worker on a Download row of the request, whatever
  the threads were seen doing.
\<close>

lemma download_keeps_workers_on_rows:
  assumes "download cfg disk seen res st = (err, res', st')" "workers_have_rows res st"
  shows "workers_have_rows res' st'"
proof (cases "vals res")
  case None
  with assms show ?thesis by (simp add: download_def)
next
  case (Some row)
  let ?names = "\<lambda>s. d_remote_filename ` {d \<in> set (downloads s). d_request_id d = r_id row}"
  obtain st1 entries ws st2 e3 ws3 st3 where
    st1: "st1 = st \<or> st1 = create_dl_entries cfg (r_id row) (files res) st" and
    en: "set entries \<subseteq> {d \<in> set (downloads st1). d_request_id d = r_id row}" and
    sw: "start_workers cfg (guid res) entries (downloaders res, st1) = (ws, st2)" and
    ra: "reconcile_all disk (map fst ws) (map (\<lambda>(k, w). (k, seen w)) ws, st2) = (e3, ws3, st3)" and
    d: "download cfg disk seen res st = (e3, res\<lparr>downloaders := ws3\<rparr>, st3)"
    by (rule download_steps[OF Some, of st cfg disk seen])
  from d assms(1) have res': "res' = res\<lparr>downloaders := ws3\<rparr>" "st' = st3" by simp_all
  have names1: "?names st \<subseteq> ?names st1"
  proof (rule disjE[OF st1])
    assume "st1 = st"
    then show ?thesis by simp
  next
    assume c: "st1 = create_dl_entries cfg (r_id row) (files res) st"
    obtain more where "downloads st1 = downloads st @ more"
      using create_dl_entries_appends[of cfg "r_id row" "files res" st] c by auto
    then show ?thesis by auto
  qed
  have k0: "fst ` set (downloaders res) \<subseteq> ?names st"
    using assms(2) Some by (simp add: workers_have_rows_alt)
  have k1: "fst ` set ws \<subseteq> fst ` set (downloaders res) \<union> d_remote_filename ` set entries"
    using start_workers_keys[OF sw] .
  have e1: "d_remote_filename ` set entries \<subseteq> ?names st1" using en by (rule image_mono)
  have k2: "fst ` set (map (\<lambda>(k, w). (k, seen w)) ws) = fst ` set ws" by force
  have d2: "downloads st2 = downloads st1" using start_workers_appends[OF sw] by simp
  have k3: "fst ` set ws3 \<subseteq> fst ` set ws" "row_keys (downloads st3) = row_keys (downloads st2)"
    using reconcile_all_keeps[OF ra] k2 by simp_all
  have "fst ` set ws \<subseteq> ?names st1"
  proof
    fix k assume "k \<in> fst ` set ws"
    with k1 have "k \<in> fst ` set (downloaders res) \<or> k \<in> d_remote_filename ` set entries"
      by blast
    then show "k \<in> ?names st1" using k0 names1 e1 by blast
  qed
  with k3(1) have "fst ` set ws3 \<subseteq> ?names st1" by (rule subset_trans)
  also have "?names st1 = ?names st3"
    using k3(2) d2 by (simp add: request_names_by_keys)
  finally show ?thesis using Some res' by (simp add: workers_have_rows_alt)
qed

lemma attempts_of_length:
  "length (attempts_of st x)
   = length (filter (\<lambda>i. i = x) (map a_download_id (download_attempts st)))"
  by (simp add: attempts_of_def filter_map comp_def)

text \<open>
  Over a whole call of \<^verbatim>\<open>download\<close> no Download gets past the ceiling: attempt rows
  are inserted by the first loop only.
\<close>

lemma download_attempt_bound:
  assumes "download cfg disk seen res st = (err, res', st')"
  shows "length (attempts_of st' x) \<le> max (length (attempts_of st x)) (numretries cfg)"
proof (cases "vals res")
  case None
  with assms show ?thesis by (simp add: download_def)
next
  case (Some row)
  obtain st1 entries ws st2 e3 ws3 st3 where
    st1: "st1 = st \<or> st1 = create_dl_entries cfg (r_id row) (files res) st" and
    en: "set entries \<subseteq> {d \<in> set (downloads st1). d_request_id d = r_id row}" and
    sw: "start_workers cfg (guid res) entries (downloaders res, st1) = (ws, st2)" and
    ra: "reconcile_all disk (map fst ws) (map (\<lambda>(k, w). (k, seen w)) ws, st2) = (e3, ws3, st3)" and
    d: "download cfg disk seen res st = (e3, res\<lparr>downloaders := ws3\<rparr>, st3)"
    by (rule download_steps[OF Some, of st cfg disk seen])
  from d assms have res': "st' = st3" by simp
  have "download_attempts st1 = download_attempts st"
    using st1 by (auto simp: create_dl_entries_attempts)
  then have 1: "attempts_of st1 x = attempts_of st x" by (simp add: attempts_of_def)
  have 2: "length (attempts_of st2 x) \<le> max (length (attempts_of st1 x)) (numretries cfg)"
    using start_workers_growth[OF sw] by simp
  have 3: "length (attempts_of st3 x) = length (attempts_of st2 x)"
    using reconcile_all_attempt_ids[OF ra] by (simp add: attempts_of_length)
  show ?thesis using 1 2 3 res' by simp
qed

text \<open>
  With a single file, one failure ends the request: the worker's failure is recorded by
  one call of \<^verbatim>\<open>download\<close>, and the next completion evaluation marks the request
  \<open>finished\<close> with two retries unused.
\<close>

lemma single_failure_ends_request:
  "marked_finished ex_cfg ex_restore ex_failed_once
   \<and> length (attempts_of ex_failed_once 1) = 1 \<and> numretries ex_cfg = 3"
  by code_simp

text \<open>
  The same through the calls themselves. The first call of \<^verbatim>\<open>download\<close> creates the row
  and starts a worker; the worker fails; the second call records the failure; the
  completion evaluation that follows marks the request, after one attempt of three.
\<close>

lemma single_failure_trace:
  "(case download ex_cfg Map.empty id ex_new_restore ex_empty_store of
      (e1, r1, s1) \<Rightarrow>
        (case download ex_cfg Map.empty ex_seen_failed r1 s1 of
           (e2, r2, s2) \<Rightarrow>
             (map d_status (downloads s1), map_sum id fst (is_finished ex_cfg r1 s1),
              map d_status (downloads s2), length (download_attempts s2),
              map_sum id (\<lambda>(done, s3). (done, map r_status (requests s3)))
                (is_finished ex_cfg r2 s2))))
   = ([''downloading''], Inr False, [''failed''], 1, Inr (True, [''finished'']))"
  by code_simp


section \<open>The download worker\<close>

text \<open>
  A connection that cannot be opened is tried again after one second, for as long as
  it fails.
\<close>

lemma login_loop_retries:
  "\<forall>t \<in> set fails. \<not> connects t \<Longrightarrow>
   login_loop (fails @ rest) w = login_loop rest (w\<lparr>sleeps := sleeps w + length fails\<rparr>)"
  by (induction fails arbitrary: w) auto

lemma login_loop_never_gives_up:
  "\<forall>t \<in> set fails. \<not> connects t \<Longrightarrow> login_loop fails w = None"
  by (induction fails arbitrary: w) auto

text \<open>
  Whenever the local file can be opened, \<^verbatim>\<open>self.status = 'New'\<close> replaces whatever the
  login loop had written, so the test \<^verbatim>\<open>self.status == 'failed'\<close> that follows is false
  and the transfer starts with the \<^verbatim>\<open>SIZE\<close> command.
\<close>

lemma sent_write_blocks: "sent (fold write_block bs w) = sent w"
  by (induction bs arbitrary: w) (auto simp: write_block_def)

lemma open_clears_failure:
  "opens env = Returns () \<Longrightarrow> \<exists>more. sent (after_login env w) = sent w @ ''SIZE'' # more"
  by (auto simp: after_login_def Let_def finished_def sent_write_blocks split: outcome.splits)

text \<open>
  A refusal of the login or of the change of directory reaches the loop as an
  exception, and the handler treats every exception alike: one second of sleep and
  the next turn. While the server refuses, the loop goes on and the worker reports
  nothing.
\<close>

lemma login_refusals_retried:
  "\<forall>t \<in> set refusals. connects t \<and> (\<exists>reply. login t = Raises reply) \<Longrightarrow>
   login_loop (refusals @ rest) w = login_loop rest (w\<lparr>sleeps := sleeps w + length refusals\<rparr>)"
  by (induction refusals arbitrary: w) auto

lemma refusals_never_fatal:
  "\<forall>t \<in> set refusals. (\<exists>reply. login t = Raises reply) \<or> (\<exists>reply. cwd t = Raises reply) \<Longrightarrow>
   login_loop refusals w = None"
  by (induction refusals arbitrary: w) (auto simp: Let_def split: outcome.splits)

text \<open>
  Claim C6, at the input where it fails. The server refuses the login of the worker for
  \<open>a.fits\<close> with reply 530. The worker does not report \<open>failed\<close>: it sleeps one second and
  logs in again, turn after turn, and after three refusals it is still in the loop.
  When the server then accepts, the same attempt transfers the file and ends
  \<open>downloaded\<close>, having slept three times. A refused change of directory (reply 550)
  goes the same way.
\<close>

theorem rejection_is_retried:
  "login_loop (replicate 3 ex_login_refused) ex_worker = None
   \<and> run (replicate 3 ex_login_refused) ex_transfer ex_worker = None
   \<and> map_option status (run (replicate 3 ex_login_refused @ [ex_accepted]) ex_transfer ex_worker)
       = Some ''downloaded''
   \<and> map_option sleeps (run (replicate 3 ex_login_refused @ [ex_accepted]) ex_transfer ex_worker)
       = Some 3
   \<and> map_option sent (run (replicate 3 ex_login_refused @ [ex_accepted]) ex_transfer ex_worker)
       = Some [''SIZE'', ''TYPE I'', ''RETR a.fits'']
   \<and> run (replicate 3 ex_cwd_refused) ex_transfer ex_worker = None
   \<and> map_option status (run (replicate 3 ex_cwd_refused @ [ex_accepted]) ex_transfer ex_worker)
       = Some ''downloaded''
   \<and> map_option sleeps (run (replicate 3 ex_cwd_refused @ [ex_accepted]) ex_transfer ex_worker)
       = Some 3"
  by code_simp


section \<open>The store's retry loop\<close>

lemma rollback_restores:
  "committed (rollback (fold execute qs (connect db))) = db \<and>
   in_transaction (rollback (fold execute qs (connect db))) = db"
proof -
  have "committed (fold execute qs c) = committed c" for c :: "('a, 'b) connection"
    by (induction qs arbitrary: c) (auto simp: execute_def split: prod.splits)
  then show ?thesis by (simp add: rollback_def connect_def)
qed

lemma backoff_after_failures:
  "backoff ((after_failures n db)\<lparr>db_conn_bound := True\<rparr>) = after_failures (Suc n) db"
proof (cases n)
  case 0
  then show ?thesis by (simp add: backoff_def after_failures_def)
next
  case (Suc m)
  show ?thesis
  proof (cases "m mod 60 = 59")
    case True
    then have "Suc m mod 60 = 0" "Suc m div 60 = Suc (m div 60)"
      by (simp_all add: mod_Suc div_Suc)
    with True Suc show ?thesis by (simp add: backoff_def after_failures_def)
  next
    case False
    then have "Suc m mod 60 = Suc (m mod 60)" "Suc m div 60 = m div 60"
      by (simp_all add: mod_Suc div_Suc)
    moreover have "m mod 60 < 59" using False by (simp add: less_le)
    ultimately show ?thesis using Suc by (simp add: backoff_def after_failures_def)
  qed
qed

text \<open>
  Failed turns leave the database as the call found it and only move the counters.
\<close>

lemma query_loop_locked:
  "query_loop qs fo (map Locked ks @ rest) ((after_failures n db)\<lparr>db_conn_bound := (n > 0)\<rparr>)
   = query_loop qs fo rest (after_failures (n + length ks) db)"
proof (induction ks arbitrary: n)
  case Nil
  then show ?case by (simp add: after_failures_def)
next
  case (Cons k ks)
  have "query_loop qs fo (map Locked (k # ks) @ rest)
          ((after_failures n db)\<lparr>db_conn_bound := (n > 0)\<rparr>)
        = query_loop qs fo (map Locked ks @ rest)
            (backoff ((after_failures n db)\<lparr>db_conn_bound := True\<rparr>))"
    using rollback_restores[of "take k qs" db] by (simp add: Let_def after_failures_def)
  also have "\<dots> = query_loop qs fo (map Locked ks @ rest)
                     ((after_failures (Suc n) db)\<lparr>db_conn_bound := (Suc n > 0)\<rparr>)"
    by (simp add: backoff_after_failures) (simp add: after_failures_def)
  also have "\<dots> = query_loop qs fo rest (after_failures (Suc n + length ks) db)"
    by (rule Cons.IH)
  finally show ?case by simp
qed

lemma results_of_insert:
  "lastrowid k = Some n \<Longrightarrow> n \<noteq> 0 \<Longrightarrow> results_of fo k = LastRowId n"
  by (simp add: results_of_def)

lemma results_of_rows:
  "lastrowid k = None \<Longrightarrow> results_of False k = AllRows (pending_rows k)"
  by (simp add: results_of_def)

text \<open>
  Claim C7. A call of the store's execute operation that meets any number of lock
  errors, each at any statement of the batch or at the commit, and then a turn that
  gets through: it returns what the last statement left on the cursor (the row id of
  an insert, the fetched rows otherwise), and the database is the one the call found
  with all its statements applied once, so that nothing of the failed turns is left.
  It has slept one second per failed turn and has printed its warning once for
  every sixty failed turns that preceded a failed turn: none during the first sixty,
  the first at the sixty-first. While the lock errors go on it does not return.
\<close>

theorem query_retries_until_commit:
  "query qs fo (map Locked ks @ Succeeds # rest) db =
     Some (Inr (results_of fo (cur (fold execute qs (connect db)))),
           \<lparr>database = in_transaction (fold execute qs (connect db)),
            count = (if ks = [] then 0 else (length ks - 1) mod 60 + 1),
            warnings = (length ks - 1) div 60,
            slept = length ks,
            db_conn_bound = True\<rparr>)
   \<and> query qs fo (map Locked ks) db = None"
proof -
  have init: "\<lparr>database = db, count = 0, warnings = 0, slept = 0, db_conn_bound = False\<rparr>
              = (after_failures 0 db)\<lparr>db_conn_bound := (0 > (0::nat))\<rparr>"
    by (simp add: after_failures_def)
  have 1: "query qs fo (map Locked ks @ xs) db
           = query_loop qs fo xs (after_failures (length ks) db)" for xs
    unfolding query_def init using query_loop_locked[of qs fo ks xs 0 db] by simp
  have 2: "query qs fo (map Locked ks) db = None"
    using 1[of "[]"] by simp
  have 3: "query_loop qs fo (Succeeds # rest) (after_failures (length ks) db) =
     Some (Inr (results_of fo (cur (fold execute qs (connect db)))),
           \<lparr>database = in_transaction (fold execute qs (connect db)),
            count = (if ks = [] then 0 else (length ks - 1) mod 60 + 1),
            warnings = (length ks - 1) div 60,
            slept = length ks,
            db_conn_bound = True\<rparr>)"
    by (simp add: Let_def commit_def after_failures_def)
  show ?thesis using 1[of "Succeeds # rest"] 2 3 by simp
qed

theorem query_retries_until_commit_witness:
  "query [ex_insert 5, ex_insert 7] False (map Locked (replicate 61 1) @ Succeeds # []) []
     = Some (Inr (LastRowId 2),
             \<lparr>database = [5, 7], count = 1, warnings = 1, slept = 61, db_conn_bound = True\<rparr>)
   \<and> query [ex_insert 5, ex_select] False (map Locked (replicate 60 2) @ Succeeds # []) [3]
     = Some (Inr (AllRows [3, 5]),
             \<lparr>database = [3, 5], count = 60, warnings = 0, slept = 60, db_conn_bound = True\<rparr>)"
proof -
  have "query [ex_insert 5, ex_insert 7] False (map Locked (replicate 61 1) @ Succeeds # []) []
     = Some (Inr (results_of False (cur (fold execute [ex_insert 5, ex_insert 7] (connect [])))),
           \<lparr>database = in_transaction (fold execute [ex_insert 5, ex_insert 7] (connect [])),
            count = (if replicate 61 (1::nat) = [] then 0 else (length (replicate 61 (1::nat)) - 1) mod 60 + 1),
            warnings = (length (replicate 61 (1::nat)) - 1) div 60,
            slept = length (replicate 61 (1::nat)),
            db_conn_bound = True\<rparr>)"
    by (rule query_retries_until_commit[THEN conjunct1])
  also have "\<dots> = Some (Inr (LastRowId 2),
             \<lparr>database = [5, 7], count = 1, warnings = 1, slept = 61, db_conn_bound = True\<rparr>)"
    by (simp add: execute_def connect_def ex_insert_def results_of_def)
  finally have a: "query [ex_insert 5, ex_insert 7] False (map Locked (replicate 61 1) @ Succeeds # []) []
     = Some (Inr (LastRowId 2),
             \<lparr>database = [5, 7], count = 1, warnings = 1, slept = 61, db_conn_bound = True\<rparr>)" .
  have "query [ex_insert 5, ex_select] False (map Locked (replicate 60 2) @ Succeeds # []) [3]
     = Some (Inr (results_of False (cur (fold execute [ex_insert 5, ex_select] (connect [3])))),
           \<lparr>database = in_transaction (fold execute [ex_insert 5, ex_select] (connect [3])),
            count = (if replicate 60 (2::nat) = [] then 0 else (length (replicate 60 (2::nat)) - 1) mod 60 + 1),
            warnings = (length (replicate 60 (2::nat)) - 1) div 60,
            slept = length (replicate 60 (2::nat)),
            db_conn_bound = True\<rparr>)"
    by (rule query_retries_until_commit[THEN conjunct1])
  also have "\<dots> = Some (Inr (AllRows [3, 5]),
             \<lparr>database = [3, 5], count = 60, warnings = 0, slept = 60, db_conn_bound = True\<rparr>)"
    by (simp add: execute_def connect_def ex_insert_def ex_select_def results_of_def)
  finally have b: "query [ex_insert 5, ex_select] False (map Locked (replicate 60 2) @ Succeeds # []) [3]
     = Some (Inr (AllRows [3, 5]),
             \<lparr>database = [3, 5], count = 60, warnings = 0, slept = 60, db_conn_bound = True\<rparr>)" .
  show ?thesis using a b by (rule conjI)
qed

text \<open>
  A turn in which \<^verbatim>\<open>sqlite3.connect\<close> itself raises, after a turn that had connected,
  ends the call with an error that the handler does not catch.
\<close>

lemma connect_failure_after_lock:
  "query [ex_insert 5] False [Locked 0, CannotConnect, Succeeds] []
   = Some (Inl ProgrammingError,
           \<lparr>database = [], count = 1, warnings = 0, slept = 1, db_conn_bound = True\<rparr>)"
  by code_simp

end
